(* ===== verification/Prelude.thy ===== *)
theory Prelude
  imports Main "HOL-Library.Word" "HOL-Library.Monad_Syntax" "HOL-Library.Multiset"
begin

section \<open>Shared types and lemmas\<close>

text \<open>
  The machine types of the C code as words of their width, the little-endian byte and half-word
  layout that PCI and x86 use, and the list lemmas about rotation that the ring buffer needs.
  A C function that can reach undefined behaviour (an access outside the object a pointer
  belongs to, a null dereference) returns an \<open>option\<close> throughout the development:
  \<open>None\<close> is the undefined behaviour.  Loops whose termination is a theorem and not a
  syntactic fact are \<open>partial_function (option)\<close>, where \<open>None\<close> also stands for a loop that
  never returns; so \<open>f x = Some y\<close> always says that the code returns and stays defined.
\<close>

unbundle bit_operations_syntax

type_synonym u8 = "8 word"
type_synonym u16 = "16 word"
type_synonym u32 = "32 word"
type_synonym u64 = "64 word"
type_synonym hwaddr = "64 word"

named_theorems reg_simps \<open>register offsets as numerals\<close>
named_theorems dev_simps \<open>facts that compute device operations\<close>

subsection \<open>Halves of a 64-bit word\<close>

definition lo32 :: "u64 \<Rightarrow> u32" where
  "lo32 w = ucast w"

definition hi32 :: "u64 \<Rightarrow> u32" where
  "hi32 w = ucast (drop_bit 32 w)"

definition join32 :: "u32 \<Rightarrow> u32 \<Rightarrow> u64" where
  "join32 lo hi = push_bit 32 (ucast hi) OR ucast lo"

lemma join32_lo_hi [simp]: "join32 (lo32 w) (hi32 w) = w"
  unfolding join32_def lo32_def hi32_def
  by (rule bit_word_eqI) (auto simp: bit_simps)

lemma lo32_join32 [simp]: "lo32 (join32 a b) = a"
  unfolding join32_def lo32_def
  by (rule bit_word_eqI) (auto simp: bit_simps)

lemma hi32_join32 [simp]: "hi32 (join32 a b) = b"
  unfolding join32_def hi32_def
  by (rule bit_word_eqI) (auto simp: bit_simps dest: bit_imp_le_length)

lemma lo32_drop_bit [simp]: "lo32 (drop_bit 32 w) = hi32 w"
  by (simp add: lo32_def hi32_def)

lemma push_or_halves [simp]: "push_bit 32 (ucast b) OR (ucast a :: u64) = join32 a b"
  by (simp add: join32_def)

lemma ucast_up_down [simp]: "ucast (ucast (w :: u32) :: u64) = w"
  by (rule bit_word_eqI) (auto simp: bit_simps dest: bit_imp_le_length)

lemma hi32_0 [simp]: "hi32 0 = 0" and lo32_0 [simp]: "lo32 0 = 0"
  by (simp_all add: hi32_def lo32_def)

subsection \<open>Rotation of lists\<close>

lemma add_mod_inj:
  assumes "i < n" "j < n" "(h + i) mod n = (h + j) mod (n::nat)"
  shows "i = j"
  using assms
proof (induction i j rule: linorder_wlog)
  case (le a b)
  then have "n dvd (h + b) - (h + a)"
    by (metis add_le_cancel_left mod_eq_dvd_iff_nat)
  with le show ?case by (cases "a = b") (auto dest!: dvd_imp_le)
next
  case (sym a b)
  then show ?case by simp
qed

lemma rotate_list_update:
  assumes "i < length xs"
  shows "rotate h (xs[(h + i) mod length xs := v]) = (rotate h xs)[i := v]"
proof (rule nth_equalityI)
  fix j assume "j < length (rotate h (xs[(h + i) mod length xs := v]))"
  then have j: "j < length xs" by simp
  have m: "(h + i) mod length xs < length xs"
    using assms by (intro mod_less_divisor) linarith
  have "(h + j) mod length xs = (h + i) mod length xs \<longleftrightarrow> j = i"
    using add_mod_inj [of j "length xs" i h] assms j by auto
  then show "rotate h (xs[(h + i) mod length xs := v]) ! j = (rotate h xs)[i := v] ! j"
    using assms j m by (auto simp: nth_rotate nth_list_update)
qed simp

lemma rotate_Suc_mod: "rotate (Suc h mod length xs) xs = rotate1 (rotate h xs)"
  by (metis rotate_conv_mod rotate_Suc)

end
