(* ===== verification/RingQueue.thy ===== *)
theory RingQueue
  imports Prelude
begin

section \<open>The ring queue of virtine addresses\<close>

text \<open>
  \<open>struct virtine_ring_queue\<close> of \<open>qemu-fpga-char/virtine_fpga.c\<close> and its static helpers.
  Pointers are the machine addresses they are in the running program, 64-bit words; the field
  \<open>buffer_at\<close> is the address of \<open>buffer[0]\<close>, which the C object has without storing it.
  Pointer arithmetic on \<open>hwaddr *\<close> moves by \<open>sizeof(hwaddr) = 8\<close>.  A dereference goes
  through \<open>deref\<close> and \<open>store\<close>, which are \<open>None\<close> outside the 100 slots of the buffer.
\<close>

subsection \<open>State and operations\<close>

definition NUM_POSSIBLE_VIRTINES :: nat where
  "NUM_POSSIBLE_VIRTINES = 100"

record virtine_ring_queue =
  buffer_at :: u64
  base_addr :: u64
  head_offset :: u64
  tail_offset :: u64
  buffer :: "hwaddr list"

definition slot_addr :: "virtine_ring_queue \<Rightarrow> nat \<Rightarrow> u64" where
  "slot_addr q i = buffer_at q + 8 * of_nat i"

definition slot_index :: "virtine_ring_queue \<Rightarrow> u64 \<Rightarrow> nat" where
  "slot_index q p = unat (p - buffer_at q) div 8"

definition points_to_slot :: "virtine_ring_queue \<Rightarrow> u64 \<Rightarrow> bool" where
  "points_to_slot q p \<longleftrightarrow>
     unat (p - buffer_at q) mod 8 = 0 \<and> slot_index q p < NUM_POSSIBLE_VIRTINES"

definition deref :: "virtine_ring_queue \<Rightarrow> u64 \<Rightarrow> hwaddr option" where
  "deref q p = (if points_to_slot q p then Some (buffer q ! slot_index q p) else None)"

definition store :: "virtine_ring_queue \<Rightarrow> u64 \<Rightarrow> hwaddr \<Rightarrow> virtine_ring_queue option" where
  "store q p v =
     (if points_to_slot q p then Some (q\<lparr>buffer := (buffer q)[slot_index q p := v]\<rparr>) else None)"

definition reset_queue_pointers :: "virtine_ring_queue \<Rightarrow> virtine_ring_queue" where
  "reset_queue_pointers q =
     (let buffer_base = slot_addr q 0
      in q\<lparr>base_addr := buffer_base, head_offset := buffer_base, tail_offset := buffer_base\<rparr>)"

definition end_of_queue :: "virtine_ring_queue \<Rightarrow> u64" where
  "end_of_queue q = slot_addr q (NUM_POSSIBLE_VIRTINES - 1)"

definition within :: "u64 \<Rightarrow> virtine_ring_queue \<Rightarrow> bool" where
  "within p q \<longleftrightarrow> base_addr q \<le> p \<and> p \<le> end_of_queue q"

definition next_element :: "virtine_ring_queue \<Rightarrow> u64 \<Rightarrow> u64" where
  "next_element q p =
     (let ret = 0 :: u64;
          ret = (if \<not> within p q then 0 else ret);
          ret = (if p = end_of_queue q then base_addr q else p + 8)
      in ret)"

definition peek_previous_element :: "virtine_ring_queue \<Rightarrow> u64 \<Rightarrow> u64" where
  "peek_previous_element q p =
     (let ret = 0 :: u64;
          ret = (if \<not> within p q then 0 else ret);
          ret = (if p = base_addr q then end_of_queue q else p - 8)
      in ret)"

definition pop_head :: "virtine_ring_queue \<Rightarrow> (hwaddr \<times> virtine_ring_queue) option" where
  "pop_head q = do {
     ret \<leftarrow> deref q (head_offset q);
     advance \<leftarrow> (if tail_offset q \<noteq> head_offset q then Some True
                 else map_option (\<lambda>v. v \<noteq> 0) (deref q (head_offset q)));
     if advance then do {
       q \<leftarrow> store q (head_offset q) 0;
       Some (ret, q\<lparr>head_offset := next_element q (head_offset q)\<rparr>)
     } else Some (ret, q)
   }"

definition insert_tail ::
  "virtine_ring_queue \<Rightarrow> hwaddr \<Rightarrow> (u64 \<times> virtine_ring_queue) option" where
  "insert_tail q to_insert = do {
     let ret = tail_offset q;
     room \<leftarrow> (if head_offset q \<noteq> tail_offset q then Some True
              else map_option (\<lambda>v. v = 0) (deref q (tail_offset q)));
     if room then do {
       q \<leftarrow> store q (tail_offset q) to_insert;
       let q = q\<lparr>tail_offset := next_element q (tail_offset q)\<rparr>;
       Some (tail_offset q, q)
     } else Some (ret, q)
   }"

subsection \<open>Well-formed queues and their contents\<close>

text \<open>
  \<open>ring_ok\<close> is what memory safety needs: the object lies inside the address space, and the
  pointers point to slots.  It says nothing of the stored values.  \<open>ring_wf\<close> adds the
  discipline the code's full/empty test relies on: the occupied slots, read from HEAD on, are
  exactly the non-zero ones, and TAIL stands right after them.
\<close>

definition head_index :: "virtine_ring_queue \<Rightarrow> nat" where
  "head_index q = slot_index q (head_offset q)"

definition tail_index :: "virtine_ring_queue \<Rightarrow> nat" where
  "tail_index q = slot_index q (tail_offset q)"

definition from_head :: "virtine_ring_queue \<Rightarrow> hwaddr list" where
  "from_head q = rotate (head_index q) (buffer q)"

definition ring_list :: "virtine_ring_queue \<Rightarrow> hwaddr list" where
  "ring_list q = takeWhile (\<lambda>v. v \<noteq> 0) (from_head q)"

definition ring_ok :: "virtine_ring_queue \<Rightarrow> bool" where
  "ring_ok q \<longleftrightarrow>
     length (buffer q) = NUM_POSSIBLE_VIRTINES \<and>
     unat (buffer_at q) + 8 * NUM_POSSIBLE_VIRTINES < 2 ^ 64 \<and>
     base_addr q = buffer_at q \<and>
     points_to_slot q (head_offset q) \<and> points_to_slot q (tail_offset q)"

definition ring_wf :: "virtine_ring_queue \<Rightarrow> bool" where
  "ring_wf q \<longleftrightarrow>
     ring_ok q \<and>
     tail_index q = (head_index q + length (ring_list q)) mod NUM_POSSIBLE_VIRTINES \<and>
     list_all (\<lambda>v. v = 0) (drop (length (ring_list q)) (from_head q))"


subsection \<open>Pointers and slot numbers\<close>

lemma slot_index_slot_addr:
  assumes "i < NUM_POSSIBLE_VIRTINES"
  shows "slot_index q (slot_addr q i) = i"
proof -
  have "unat (8 * of_nat i :: u64) = 8 * i"
    using assms by (simp add: NUM_POSSIBLE_VIRTINES_def unat_word_ariths unat_of_nat)
  then show ?thesis by (simp add: slot_index_def slot_addr_def)
qed

lemma points_to_slot_slot_addr:
  assumes "i < NUM_POSSIBLE_VIRTINES"
  shows "points_to_slot q (slot_addr q i)"
proof -
  have "unat (8 * of_nat i :: u64) = 8 * i"
    using assms by (simp add: NUM_POSSIBLE_VIRTINES_def unat_word_ariths unat_of_nat)
  then have "unat (slot_addr q i - buffer_at q) mod 8 = 0"
    by (simp add: slot_addr_def)
  with assms show ?thesis by (simp add: points_to_slot_def slot_index_slot_addr)
qed

lemma slot_addr_slot_index:
  assumes "points_to_slot q p"
  shows "slot_addr q (slot_index q p) = p"
proof -
  have "8 * (unat (p - buffer_at q) div 8) = unat (p - buffer_at q)"
    using assms by (auto simp: points_to_slot_def)
  then have "of_nat (8 * (unat (p - buffer_at q) div 8)) = (of_nat (unat (p - buffer_at q)) :: u64)"
    by simp
  then have "(8 * of_nat (unat (p - buffer_at q) div 8) :: u64) = p - buffer_at q"
    by (simp add: unsigned_ucast_eq)
  then show ?thesis by (simp add: slot_addr_def slot_index_def)
qed

lemma slot_addr_eq_iff:
  "i < NUM_POSSIBLE_VIRTINES \<Longrightarrow> j < NUM_POSSIBLE_VIRTINES \<Longrightarrow>
   slot_addr q i = slot_addr q j \<longleftrightarrow> i = j"
  by (metis slot_index_slot_addr)

lemma slot_addr_Suc: "slot_addr q i + 8 = slot_addr q (Suc i)"
  by (simp add: slot_addr_def algebra_simps)

lemma next_element_slot:
  assumes "base_addr q = buffer_at q" "i < NUM_POSSIBLE_VIRTINES"
  shows "next_element q (slot_addr q i) = slot_addr q (Suc i mod NUM_POSSIBLE_VIRTINES)"
proof (cases "i = NUM_POSSIBLE_VIRTINES - 1")
  case True
  then show ?thesis using assms
    by (simp add: next_element_def end_of_queue_def slot_addr_def NUM_POSSIBLE_VIRTINES_def)
next
  case False
  then have "Suc i mod NUM_POSSIBLE_VIRTINES = Suc i" using assms(2) by simp
  then show ?thesis using False assms
    by (simp add: next_element_def end_of_queue_def slot_addr_eq_iff slot_addr_Suc
        NUM_POSSIBLE_VIRTINES_def)
qed


subsection \<open>The operations on slot numbers\<close>

text \<open>
  \<open>ring_at q h t\<close> names the two indices of a queue in a sound state; the operations are then
  computed on the indices and the buffer alone.
\<close>

definition ring_at :: "virtine_ring_queue \<Rightarrow> nat \<Rightarrow> nat \<Rightarrow> bool" where
  "ring_at q h t \<longleftrightarrow> ring_ok q \<and> head_index q = h \<and> tail_index q = t"

lemma ring_okE:
  assumes "ring_ok q"
  obtains h t where "ring_at q h t"
  using assms by (simp add: ring_at_def)

lemma ring_atD:
  assumes "ring_at q h t"
  shows "h < NUM_POSSIBLE_VIRTINES" "t < NUM_POSSIBLE_VIRTINES"
    "head_offset q = slot_addr q h" "tail_offset q = slot_addr q t"
    "length (buffer q) = NUM_POSSIBLE_VIRTINES" "base_addr q = buffer_at q"
  using assms slot_addr_slot_index
  by (auto simp: ring_at_def ring_ok_def head_index_def tail_index_def points_to_slot_def)

lemma slot_addr_update [simp]:
  "slot_addr (q\<lparr>buffer := b\<rparr>) i = slot_addr q i"
  "slot_addr (q\<lparr>head_offset := p\<rparr>) i = slot_addr q i"
  "slot_addr (q\<lparr>tail_offset := p\<rparr>) i = slot_addr q i"
  by (simp_all add: slot_addr_def)

lemma slot_index_update [simp]:
  "slot_index (q\<lparr>buffer := b\<rparr>) p' = slot_index q p'"
  "slot_index (q\<lparr>head_offset := p\<rparr>) p' = slot_index q p'"
  "slot_index (q\<lparr>tail_offset := p\<rparr>) p' = slot_index q p'"
  by (simp_all add: slot_index_def)

lemma points_to_slot_update [simp]:
  "points_to_slot (q\<lparr>buffer := b\<rparr>) p' = points_to_slot q p'"
  "points_to_slot (q\<lparr>head_offset := p\<rparr>) p' = points_to_slot q p'"
  "points_to_slot (q\<lparr>tail_offset := p\<rparr>) p' = points_to_slot q p'"
  by (simp_all add: points_to_slot_def)

lemma deref_slot:
  "i < NUM_POSSIBLE_VIRTINES \<Longrightarrow> deref q (slot_addr q i) = Some (buffer q ! i)"
  by (simp add: deref_def points_to_slot_slot_addr slot_index_slot_addr)

lemma store_slot:
  "i < NUM_POSSIBLE_VIRTINES \<Longrightarrow>
   store q (slot_addr q i) v = Some (q\<lparr>buffer := (buffer q)[i := v]\<rparr>)"
  by (simp add: store_def points_to_slot_slot_addr slot_index_slot_addr)

definition popped :: "virtine_ring_queue \<Rightarrow> nat \<Rightarrow> virtine_ring_queue" where
  "popped q h = q\<lparr>buffer := (buffer q)[h := 0],
     head_offset := slot_addr q (Suc h mod NUM_POSSIBLE_VIRTINES)\<rparr>"

definition inserted :: "virtine_ring_queue \<Rightarrow> nat \<Rightarrow> hwaddr \<Rightarrow> virtine_ring_queue" where
  "inserted q t v = q\<lparr>buffer := (buffer q)[t := v],
     tail_offset := slot_addr q (Suc t mod NUM_POSSIBLE_VIRTINES)\<rparr>"

lemma pop_head_at:
  assumes "ring_at q h t"
  shows "pop_head q =
    Some (buffer q ! h, if t \<noteq> h \<or> buffer q ! h \<noteq> 0 then popped q h else q)"
proof -
  note at = ring_atD [OF assms]
  have n: "next_element (q\<lparr>buffer := b\<rparr>) (slot_addr q h) =
      slot_addr q (Suc h mod NUM_POSSIBLE_VIRTINES)" for b
    using next_element_slot [of "q\<lparr>buffer := b\<rparr>" h] at by simp
  show ?thesis
    using at by (simp add: pop_head_def deref_slot store_slot slot_addr_eq_iff popped_def n)
qed

lemma insert_tail_at:
  assumes "ring_at q h t"
  shows "insert_tail q v =
    Some (if h \<noteq> t \<or> buffer q ! t = 0
          then (slot_addr q (Suc t mod NUM_POSSIBLE_VIRTINES), inserted q t v)
          else (tail_offset q, q))"
proof -
  note at = ring_atD [OF assms]
  have n: "next_element (q\<lparr>buffer := b\<rparr>) (slot_addr q t) =
      slot_addr q (Suc t mod NUM_POSSIBLE_VIRTINES)" for b
    using next_element_slot [of "q\<lparr>buffer := b\<rparr>" t] at by simp
  show ?thesis
    using at by (simp add: insert_tail_def deref_slot store_slot slot_addr_eq_iff inserted_def n Let_def)
qed

lemma Suc_mod_less [simp]: "Suc i mod NUM_POSSIBLE_VIRTINES < NUM_POSSIBLE_VIRTINES"
  by (simp add: NUM_POSSIBLE_VIRTINES_def)

lemma ring_at_popped:
  assumes "ring_at q h t"
  shows "ring_at (popped q h) (Suc h mod NUM_POSSIBLE_VIRTINES) t"
  using assms ring_atD [OF assms]
  by (simp add: ring_at_def ring_ok_def popped_def head_index_def tail_index_def
      slot_index_slot_addr points_to_slot_slot_addr)

lemma ring_at_inserted:
  assumes "ring_at q h t"
  shows "ring_at (inserted q t v) h (Suc t mod NUM_POSSIBLE_VIRTINES)"
  using assms ring_atD [OF assms]
  by (simp add: ring_at_def ring_ok_def inserted_def head_index_def tail_index_def
      slot_index_slot_addr points_to_slot_slot_addr)

subsection \<open>Memory safety for any stored value\<close>

locale safe_ring =
  fixes ok :: "'q \<Rightarrow> bool"
    and ins :: "'q \<Rightarrow> 'a \<Rightarrow> ('r \<times> 'q) option"
    and pop :: "'q \<Rightarrow> ('a \<times> 'q) option"
  assumes ins_safe: "ok q \<Longrightarrow> \<exists>r q'. ins q x = Some (r, q') \<and> ok q'"
    and pop_safe: "ok q \<Longrightarrow> \<exists>x q'. pop q = Some (x, q') \<and> ok q'"
begin

lemma ins_ok: "ok q \<Longrightarrow> ins q x = Some (r, q') \<Longrightarrow> ok q'"
  using ins_safe [of q x] by auto

lemma pop_ok: "ok q \<Longrightarrow> pop q = Some (x, q') \<Longrightarrow> ok q'"
  using pop_safe [of q] by auto

lemma ins_defined: "ok q \<Longrightarrow> ins q x \<noteq> None"
  using ins_safe [of q x] by auto

lemma pop_defined: "ok q \<Longrightarrow> pop q \<noteq> None"
  using pop_safe [of q] by auto

end

interpretation ring_safe: safe_ring ring_ok insert_tail pop_head
proof
  fix q x assume "ring_ok q"
  then obtain h t where at: "ring_at q h t" by (rule ring_okE)
  then show "\<exists>r q'. insert_tail q x = Some (r, q') \<and> ring_ok q'"
    using ring_at_inserted [OF at] by (simp add: insert_tail_at ring_at_def)
next
  fix q assume "ring_ok q"
  then obtain h t where at: "ring_at q h t" by (rule ring_okE)
  then show "\<exists>x q'. pop_head q = Some (x, q') \<and> ring_ok q'"
    using ring_at_popped [OF at] by (simp add: pop_head_at ring_at_def)
qed


subsection \<open>The bounded first-in first-out contract\<close>

text \<open>
  What a client of the queue relies on.  An insertion of a value other than \<open>null\<close> appends
  it when there is room and changes nothing otherwise; a removal takes the oldest element, or
  answers \<open>null\<close> on the empty queue.  Both always return.
\<close>

fun insert_all :: "('q \<Rightarrow> 'a \<Rightarrow> ('r \<times> 'q) option) \<Rightarrow> 'q \<Rightarrow> 'a list \<Rightarrow> 'q option" where
  "insert_all ins q [] = Some q"
| "insert_all ins q (x # xs) = Option.bind (ins q x) (\<lambda>(_, q). insert_all ins q xs)"

fun pop_times :: "('q \<Rightarrow> ('a \<times> 'q) option) \<Rightarrow> nat \<Rightarrow> 'q \<Rightarrow> ('a list \<times> 'q) option" where
  "pop_times pop 0 q = Some ([], q)"
| "pop_times pop (Suc n) q =
     Option.bind (pop q) (\<lambda>(x, q). map_option (\<lambda>(xs, q). (x # xs, q)) (pop_times pop n q))"

locale bounded_fifo = safe_ring ok ins pop
  for ok :: "'q \<Rightarrow> bool"
    and ins :: "'q \<Rightarrow> 'a \<Rightarrow> ('r \<times> 'q) option"
    and pop :: "'q \<Rightarrow> ('a \<times> 'q) option" +
  fixes inv :: "'q \<Rightarrow> bool"
    and contents :: "'q \<Rightarrow> 'a list"
    and cap :: nat
    and null :: 'a
  assumes inv_ok: "inv q \<Longrightarrow> ok q"
    and bounded: "inv q \<Longrightarrow> length (contents q) \<le> cap"
    and no_null: "inv q \<Longrightarrow> null \<notin> set (contents q)"
    and ins_law: "inv q \<Longrightarrow> x \<noteq> null \<Longrightarrow>
      \<exists>r q'. ins q x = Some (r, q') \<and> inv q' \<and>
        contents q' = (if length (contents q) < cap then contents q @ [x] else contents q)"
    and pop_law: "inv q \<Longrightarrow>
      \<exists>q'. pop q = Some (if contents q = [] then null else hd (contents q), q') \<and> inv q' \<and>
        contents q' = tl (contents q)"
begin

lemma insE:
  assumes "inv q" "x \<noteq> null"
  obtains r q' where "ins q x = Some (r, q')" "inv q'"
    "contents q' = (if length (contents q) < cap then contents q @ [x] else contents q)"
  using ins_law [OF assms] by blast

lemma popE:
  assumes "inv q"
  obtains q' where "pop q = Some (if contents q = [] then null else hd (contents q), q')"
    "inv q'" "contents q' = tl (contents q)"
  using pop_law [OF assms] by blast

lemma insert_all_contents:
  assumes "inv q" "null \<notin> set xs"
  shows "\<exists>q'. insert_all ins q xs = Some q' \<and> inv q' \<and>
    contents q' = contents q @ take (cap - length (contents q)) xs"
  using assms
proof (induction xs arbitrary: q)
  case (Cons x xs)
  from Cons.prems have "x \<noteq> null" by auto
  with Cons.prems(1) obtain r q1 where q1: "ins q x = Some (r, q1)" "inv q1"
    "contents q1 = (if length (contents q) < cap then contents q @ [x] else contents q)"
    by (rule insE)
  from Cons.prems(2) have "null \<notin> set xs" by simp
  from Cons.IH [OF q1(2) this] obtain q' where
    q': "insert_all ins q1 xs = Some q'" "inv q'"
      "contents q' = contents q1 @ take (cap - length (contents q1)) xs"
    by blast
  have "contents q' = contents q @ take (cap - length (contents q)) (x # xs)"
    using q'(3) q1(3) bounded [OF Cons.prems(1)]
    by (auto simp: take_Cons' split: if_splits)
  with q1(1) q'(1,2) show ?case by simp
qed simp

lemma pop_times_contents:
  assumes "inv q" "n \<le> length (contents q)"
  shows "\<exists>q'. pop_times pop n q = Some (take n (contents q), q') \<and> inv q' \<and>
    contents q' = drop n (contents q)"
  using assms
proof (induction n arbitrary: q)
  case (Suc n)
  from Suc.prems(1) obtain q1 where
    q1: "pop q = Some (if contents q = [] then null else hd (contents q), q1)"
      "inv q1" "contents q1 = tl (contents q)"
    by (rule popE)
  from Suc.prems(2) q1(3) have "n \<le> length (contents q1)" by simp
  from Suc.IH [OF q1(2) this] q1 Suc.prems(2) show ?case
    by (cases "contents q") auto
qed simp

lemma fifo_order:
  assumes "inv q" "contents q = []" "null \<notin> set xs" "length xs \<le> cap"
  shows "\<exists>q' q''. insert_all ins q xs = Some q' \<and>
    pop_times pop (length xs) q' = Some (xs, q'') \<and> inv q'' \<and> contents q'' = []"
proof -
  from insert_all_contents [OF assms(1,3)] assms(2,4)
  obtain q' where q': "insert_all ins q xs = Some q'" "inv q'" "contents q' = xs"
    by auto
  from pop_times_contents [OF q'(2), of "length xs"] q' show ?thesis by auto
qed

end

subsection \<open>The ring implements the contract\<close>

lemma from_head_popped:
  assumes "ring_at q h t"
  shows "from_head (popped q h) = tl (from_head q) @ [0]"
proof -
  note at = ring_atD [OF assms]
  let ?b = "(buffer q)[h := 0]"
  have "from_head (popped q h) = rotate (Suc h mod length ?b) ?b"
    using ring_at_popped [OF assms] at by (simp add: from_head_def ring_at_def popped_def)
  also have "\<dots> = rotate1 (rotate h ?b)" by (rule rotate_Suc_mod)
  also have "rotate h ?b = (from_head q)[0 := 0]"
    using rotate_list_update [of 0 "buffer q" h 0] at assms
    by (simp add: from_head_def ring_at_def NUM_POSSIBLE_VIRTINES_def)
  also have "rotate1 ((from_head q)[0 := 0]) = tl (from_head q) @ [0]"
    using at by (cases "from_head q") (auto simp: from_head_def NUM_POSSIBLE_VIRTINES_def)
  finally show ?thesis .
qed

lemma from_head_inserted:
  assumes "ring_at q h t" "t = (h + n) mod NUM_POSSIBLE_VIRTINES" "n < NUM_POSSIBLE_VIRTINES"
  shows "from_head (inserted q t v) = (from_head q)[n := v]"
  using rotate_list_update [of n "buffer q" h v] assms ring_atD [OF assms(1)]
    ring_at_inserted [OF assms(1), of v]
  by (simp add: from_head_def ring_at_def inserted_def)

lemma ring_wfD:
  assumes "ring_wf q"
  obtains h xs where
    "ring_at q h ((h + length xs) mod NUM_POSSIBLE_VIRTINES)"
    "ring_list q = xs" "0 \<notin> set xs" "length xs \<le> NUM_POSSIBLE_VIRTINES"
    "from_head q = xs @ replicate (NUM_POSSIBLE_VIRTINES - length xs) 0"
proof -
  let ?xs = "ring_list q"
  let ?r = "from_head q"
  have len: "length ?r = NUM_POSSIBLE_VIRTINES"
    using assms by (simp add: ring_wf_def ring_ok_def from_head_def)
  have pre: "?r = ?xs @ drop (length ?xs) ?r"
    by (metis ring_list_def takeWhile_dropWhile_id append_eq_conv_conj)
  moreover have "drop (length ?xs) ?r = replicate (length ?r - length ?xs) 0"
    using assms by (intro replicate_eqI) (auto simp: ring_wf_def list_all_iff)
  moreover have "0 \<notin> set ?xs"
    by (auto simp: ring_list_def dest: set_takeWhileD)
  moreover have "length ?xs \<le> NUM_POSSIBLE_VIRTINES"
    by (metis len ring_list_def length_takeWhile_le)
  ultimately show ?thesis
    using that [of "head_index q" ?xs] assms len by (auto simp: ring_wf_def ring_at_def)
qed

lemma ring_wfI:
  assumes "ring_at q h ((h + length xs) mod NUM_POSSIBLE_VIRTINES)" "0 \<notin> set xs"
    "from_head q = xs @ replicate k 0"
  shows "ring_wf q \<and> ring_list q = xs"
proof -
  have all: "takeWhile (\<lambda>v. v \<noteq> 0) xs = xs"
    using assms(2) by (auto simp: takeWhile_eq_all_conv)
  have "ring_list q = xs"
    unfolding ring_list_def assms(3)
    by (cases k) (use assms(2) all in \<open>auto simp: takeWhile_append\<close>)
  with assms show ?thesis
    by (auto simp: ring_wf_def ring_at_def list_all_iff)
qed


lemma buffer_nth_from_head:
  assumes "ring_at q h t" "n < NUM_POSSIBLE_VIRTINES"
  shows "buffer q ! ((h + n) mod NUM_POSSIBLE_VIRTINES) = from_head q ! n"
  using assms ring_atD [OF assms(1)]
  by (simp add: from_head_def ring_at_def nth_rotate)

lemma ring_wf_full_iff:
  assumes "ring_wf q"
  shows "head_offset q = tail_offset q \<and> buffer q ! head_index q \<noteq> 0 \<longleftrightarrow>
    length (ring_list q) = NUM_POSSIBLE_VIRTINES"
    and "head_offset q = tail_offset q \<and> buffer q ! head_index q = 0 \<longleftrightarrow> ring_list q = []"
proof -
  obtain h xs where at: "ring_at q h ((h + length xs) mod NUM_POSSIBLE_VIRTINES)"
    and xs: "ring_list q = xs" "0 \<notin> set xs" "length xs \<le> NUM_POSSIBLE_VIRTINES"
    and fh: "from_head q = xs @ replicate (NUM_POSSIBLE_VIRTINES - length xs) 0"
    using ring_wfD [OF assms] .
  note d = ring_atD [OF at]
  have eq: "head_offset q = tail_offset q \<longleftrightarrow> length xs = 0 \<or> length xs = NUM_POSSIBLE_VIRTINES"
  proof -
    have "head_offset q = tail_offset q \<longleftrightarrow>
        h = (h + length xs) mod NUM_POSSIBLE_VIRTINES"
      using d by (metis slot_addr_eq_iff)
    also have "\<dots> \<longleftrightarrow> length xs = 0 \<or> length xs = NUM_POSSIBLE_VIRTINES"
      using add_mod_inj [of 0 NUM_POSSIBLE_VIRTINES "length xs" h] xs(3) d(1) by fastforce
    finally show ?thesis .
  qed
  have hd: "buffer q ! head_index q = from_head q ! 0"
    using buffer_nth_from_head [OF at, of 0] d(1) at by (simp add: ring_at_def)
  have "from_head q ! 0 \<noteq> 0 \<longleftrightarrow> xs \<noteq> []"
    using fh xs(2) by (cases xs) (auto simp: NUM_POSSIBLE_VIRTINES_def)
  with eq hd xs(1) show "head_offset q = tail_offset q \<and> buffer q ! head_index q \<noteq> 0 \<longleftrightarrow>
      length (ring_list q) = NUM_POSSIBLE_VIRTINES"
    and "head_offset q = tail_offset q \<and> buffer q ! head_index q = 0 \<longleftrightarrow> ring_list q = []"
    by (auto simp: NUM_POSSIBLE_VIRTINES_def)
qed

lemma pop_head_law:
  assumes "ring_wf q"
  shows "\<exists>q'. pop_head q = Some (if ring_list q = [] then 0 else hd (ring_list q), q') \<and>
    ring_wf q' \<and> ring_list q' = tl (ring_list q)"
proof -
  obtain h xs where at: "ring_at q h ((h + length xs) mod NUM_POSSIBLE_VIRTINES)"
    and xs: "ring_list q = xs" "0 \<notin> set xs" "length xs \<le> NUM_POSSIBLE_VIRTINES"
    and fh: "from_head q = xs @ replicate (NUM_POSSIBLE_VIRTINES - length xs) 0"
    using ring_wfD [OF assms] .
  note d = ring_atD [OF at]
  have hd: "buffer q ! h = from_head q ! 0"
    using buffer_nth_from_head [OF at, of 0] d(1) by (simp add: NUM_POSSIBLE_VIRTINES_def)
  show ?thesis
  proof (cases xs)
    case Nil
    with hd fh have "buffer q ! h = 0" by (simp add: NUM_POSSIBLE_VIRTINES_def)
    with Nil xs d(1) assms show ?thesis by (auto simp: pop_head_at [OF at])
  next
    case (Cons x ys)
    with hd fh xs have x: "buffer q ! h = x" "x \<noteq> 0" by auto
    have at': "ring_at (popped q h) (Suc h mod NUM_POSSIBLE_VIRTINES)
        ((Suc h mod NUM_POSSIBLE_VIRTINES + length ys) mod NUM_POSSIBLE_VIRTINES)"
      using ring_at_popped [OF at] Cons by (simp add: mod_add_left_eq)
    have fh': "from_head (popped q h) =
        ys @ replicate (Suc (NUM_POSSIBLE_VIRTINES - length xs)) 0"
      using from_head_popped [OF at] fh Cons by (simp add: replicate_append_same)
    have "0 \<notin> set ys" using xs(2) Cons by simp
    from ring_wfI [OF at' this fh']
    have "ring_wf (popped q h) \<and> ring_list (popped q h) = ys" .
    with x xs(1) Cons show ?thesis by (auto simp: pop_head_at [OF at])
  qed
qed

lemma insert_tail_law:
  assumes "ring_wf q" "v \<noteq> 0"
  shows "\<exists>r q'. insert_tail q v = Some (r, q') \<and> ring_wf q' \<and>
    ring_list q' = (if length (ring_list q) < NUM_POSSIBLE_VIRTINES
                    then ring_list q @ [v] else ring_list q) \<and>
    (r = tail_offset q \<longleftrightarrow> length (ring_list q) = NUM_POSSIBLE_VIRTINES) \<and>
    r = tail_offset q'"
proof -
  obtain h xs where at: "ring_at q h ((h + length xs) mod NUM_POSSIBLE_VIRTINES)"
    and xs: "ring_list q = xs" "0 \<notin> set xs" "length xs \<le> NUM_POSSIBLE_VIRTINES"
    and fh: "from_head q = xs @ replicate (NUM_POSSIBLE_VIRTINES - length xs) 0"
    using ring_wfD [OF assms(1)] .
  note d = ring_atD [OF at]
  let ?t = "(h + length xs) mod NUM_POSSIBLE_VIRTINES"
  show ?thesis
  proof (cases "length xs = NUM_POSSIBLE_VIRTINES")
    case True
    then have t: "?t = h" using d(1) by simp
    have "buffer q ! h \<noteq> 0"
      using ring_wf_full_iff(1) [OF assms(1)] True xs(1) at by (simp add: ring_at_def)
    with True t xs(1) assms(1) show ?thesis by (auto simp: insert_tail_at [OF at])
  next
    case False
    with xs(3) have lt: "length xs < NUM_POSSIBLE_VIRTINES" by simp
    have t0: "buffer q ! ?t = 0"
      using buffer_nth_from_head [OF at lt] fh lt by (simp add: nth_append)
    have at': "ring_at (inserted q ?t v) h ((h + length (xs @ [v])) mod NUM_POSSIBLE_VIRTINES)"
      using ring_at_inserted [OF at, of v] by (simp add: mod_Suc_eq)
    obtain k where k: "NUM_POSSIBLE_VIRTINES - length xs = Suc k"
      using lt by (metis Suc_diff_Suc)
    have fh': "from_head (inserted q ?t v) = (xs @ [v]) @ replicate k 0"
      using from_head_inserted [OF at refl lt, of v] fh k
      by (simp add: list_update_append)
    have "0 \<notin> set (xs @ [v])" using xs(2) assms(2) by simp
    from ring_wfI [OF at' this fh']
    have wf: "ring_wf (inserted q ?t v) \<and> ring_list (inserted q ?t v) = xs @ [v]" .
    have "slot_addr q (Suc ?t mod NUM_POSSIBLE_VIRTINES) \<noteq> tail_offset q"
      using d(2,4) by (auto simp: slot_addr_eq_iff mod_Suc NUM_POSSIBLE_VIRTINES_def)
    with wf lt xs(1) t0 show ?thesis
      by (auto simp: insert_tail_at [OF at] inserted_def)
  qed
qed

interpretation ring_fifo:
  bounded_fifo ring_ok insert_tail pop_head ring_wf ring_list NUM_POSSIBLE_VIRTINES 0
proof (unfold_locales, goal_cases)
  case (1 q)
  then show ?case by (simp add: ring_wf_def)
next
  case (2 q)
  then show ?case using ring_wfD by metis
next
  case (3 q)
  then show ?case by (auto simp: ring_list_def dest: set_takeWhileD)
next
  case (4 q x)
  then show ?case using insert_tail_law by blast
next
  case (5 q)
  then show ?case by (rule pop_head_law)
qed


text \<open>
  A queued zero breaks the discipline: it occupies a slot, which the full/empty test and the
  callers of \<open>pop_head\<close> take for free.  From an empty queue, inserting 0 and then \<open>v\<close> makes the
  next pop answer 0, as if the queue were empty, while \<open>v\<close> is still behind it.
\<close>

lemma zero_before:
  assumes "ring_wf q" "ring_list q = []" "v \<noteq> 0"
  obtains r1 q1 r2 q2 q3 where "insert_tail q 0 = Some (r1, q1)" "insert_tail q1 v = Some (r2, q2)"
    "ring_ok q2" "pop_head q2 = Some (0, q3)" "ring_wf q3" "ring_list q3 = [v]"
proof -
  obtain h where at: "ring_at q h h" and fh: "from_head q = replicate NUM_POSSIBLE_VIRTINES 0"
    using ring_wfD [OF assms(1)] assms(2)
    by (metis add_0_right append_Nil diff_zero list.size(3) mod_less ring_atD(1))
  note d = ring_atD [OF at]
  let ?h1 = "Suc h mod NUM_POSSIBLE_VIRTINES"
  let ?h2 = "Suc ?h1 mod NUM_POSSIBLE_VIRTINES"
  let ?q1 = "inserted q h 0"
  let ?q2 = "inserted ?q1 ?h1 v"
  have at1: "ring_at ?q1 h ?h1" using ring_at_inserted [OF at] .
  have at2: "ring_at ?q2 h ?h2" using ring_at_inserted [OF at1] .
  have neq: "h \<noteq> ?h1" "h \<noteq> ?h2" using d(1) by (auto simp: mod_Suc NUM_POSSIBLE_VIRTINES_def)
  have b: "buffer q ! h = 0"
    using buffer_nth_from_head [OF at, of 0] d(1) fh by (simp add: NUM_POSSIBLE_VIRTINES_def)
  have "from_head ?q1 = (from_head q)[0 := 0]"
    using from_head_inserted [OF at, of 0 0] d(1) by (simp add: NUM_POSSIBLE_VIRTINES_def)
  then have fh1: "from_head ?q1 = replicate NUM_POSSIBLE_VIRTINES 0"
    using fh by (simp add: NUM_POSSIBLE_VIRTINES_def list_update_same_conv)
  have "from_head ?q2 = (from_head ?q1)[1 := v]"
    using from_head_inserted [OF at1, of 1 v] by (simp add: NUM_POSSIBLE_VIRTINES_def)
  moreover have N: "NUM_POSSIBLE_VIRTINES = Suc (Suc 98)" by (simp add: NUM_POSSIBLE_VIRTINES_def)
  have "replicate NUM_POSSIBLE_VIRTINES 0 = (0 :: u64) # 0 # replicate 98 0"
    unfolding N replicate_Suc by (rule refl)
  ultimately have fh2: "from_head ?q2 = 0 # v # replicate 98 0"
    using fh1 by simp
  have b2: "buffer ?q2 ! h = 0"
    using buffer_nth_from_head [OF at2, of 0] d(1) fh2 by (simp add: NUM_POSSIBLE_VIRTINES_def)
  have at3: "ring_at (popped ?q2 h) ?h1 ((?h1 + length [v]) mod NUM_POSSIBLE_VIRTINES)"
    using ring_at_popped [OF at2] by simp
  have fh3: "from_head (popped ?q2 h) = [v] @ 0 # replicate 98 0"
    using from_head_popped [OF at2] fh2 by (simp add: replicate_append_same)
  from ring_wfI [OF at3 _ fh3 [folded replicate_Suc]] assms(3)
  have wf3: "ring_wf (popped ?q2 h) \<and> ring_list (popped ?q2 h) = [v]" by simp
  show ?thesis
  proof (rule that)
    show "insert_tail q 0 = Some (slot_addr q ?h1, ?q1)"
      using insert_tail_at [OF at, of 0] b by simp
    show "insert_tail ?q1 v = Some (slot_addr ?q1 ?h2, ?q2)"
      using insert_tail_at [OF at1, of v] neq by simp
    show "ring_ok ?q2" using at2 by (simp add: ring_at_def)
    show "pop_head ?q2 = Some (0, popped ?q2 h)"
      using pop_head_at [OF at2] neq b2 by auto
  qed (use wf3 in simp_all)
qed

subsection \<open>A freshly reset queue\<close>

text \<open>
  QEMU hands \<open>virtine_fpga_realize\<close> an instance whose memory is zero; \<open>zeroed_ring a\<close> is the
  queue of such an instance with its buffer at address \<open>a\<close>.
\<close>

definition zeroed_ring :: "u64 \<Rightarrow> virtine_ring_queue" where
  "zeroed_ring a = \<lparr>buffer_at = a, base_addr = 0, head_offset = 0, tail_offset = 0,
     buffer = replicate NUM_POSSIBLE_VIRTINES 0\<rparr>"

lemma ring_at_reset:
  assumes "length (buffer q) = NUM_POSSIBLE_VIRTINES"
    "unat (buffer_at q) + 8 * NUM_POSSIBLE_VIRTINES < 2 ^ 64"
  shows "ring_at (reset_queue_pointers q) 0 0"
  using assms
  by (simp add: ring_at_def ring_ok_def reset_queue_pointers_def head_index_def tail_index_def
      points_to_slot_def slot_index_def slot_addr_def NUM_POSSIBLE_VIRTINES_def Let_def)

lemma ring_wf_reset:
  assumes "buffer q = replicate NUM_POSSIBLE_VIRTINES 0"
    "unat (buffer_at q) + 8 * NUM_POSSIBLE_VIRTINES < 2 ^ 64"
  shows "ring_wf (reset_queue_pointers q)" "ring_list (reset_queue_pointers q) = []"
proof -
  let ?q = "reset_queue_pointers q"
  have at: "ring_at ?q 0 ((0 + length ([] :: hwaddr list)) mod NUM_POSSIBLE_VIRTINES)"
    using ring_at_reset assms by simp
  have "from_head ?q = [] @ replicate NUM_POSSIBLE_VIRTINES 0"
    using at assms(1) by (simp add: from_head_def ring_at_def reset_queue_pointers_def Let_def)
  from ring_wfI [OF at _ this] show "ring_wf ?q" "ring_list ?q = []" by simp_all
qed

lemma zeroed_ring_wf:
  "unat a + 8 * NUM_POSSIBLE_VIRTINES < 2 ^ 64 \<Longrightarrow>
     ring_wf (reset_queue_pointers (zeroed_ring a)) \<and>
     ring_list (reset_queue_pointers (zeroed_ring a)) = []"
  using ring_wf_reset [of "zeroed_ring a"] by (simp add: zeroed_ring_def)

abbreviation example_ring :: virtine_ring_queue where
  "example_ring \<equiv> reset_queue_pointers (zeroed_ring 0x1000)"

lemma example_ring_wf: "ring_wf example_ring" "ring_list example_ring = []"
  using zeroed_ring_wf [of "0x1000"] by (simp_all add: NUM_POSSIBLE_VIRTINES_def)

subsection \<open>Properties of the queue\<close>

datatype ring_op = Insert hwaddr | Pop

fun ring_run :: "virtine_ring_queue \<Rightarrow> ring_op list \<Rightarrow> virtine_ring_queue option" where
  "ring_run q [] = Some q"
| "ring_run q (Insert v # ops) = Option.bind (insert_tail q v) (\<lambda>(_, q). ring_run q ops)"
| "ring_run q (Pop # ops) = Option.bind (pop_head q) (\<lambda>(_, q). ring_run q ops)"

lemma ring_run_ok: "ring_ok q \<Longrightarrow> \<exists>q'. ring_run q ops = Some q' \<and> ring_ok q'"
proof (induction ops arbitrary: q)
  case (Cons op ops)
  show ?case
  proof (cases op)
    case (Insert v)
    with Cons ring_safe.ins_safe [OF Cons.prems, of v] show ?thesis by auto
  next
    case Pop
    with Cons ring_safe.pop_safe [OF Cons.prems] show ?thesis by auto
  qed
qed simp

text \<open>
  C7. First in, first out: from an empty queue, wherever its pointers stand in the ring, inserting
  up to 100 non-zero addresses and popping as many gives back exactly those addresses in order,
  and leaves the queue empty and well formed.
\<close>

theorem ring_fifo_order:
  assumes "ring_wf q" "ring_list q = []" "0 \<notin> set xs" "length xs \<le> NUM_POSSIBLE_VIRTINES"
  shows "\<exists>q' q''. insert_all insert_tail q xs = Some q' \<and>
    pop_times pop_head (length xs) q' = Some (xs, q'') \<and> ring_wf q'' \<and> ring_list q'' = []"
  using assms by (rule ring_fifo.fifo_order)

theorem ring_fifo_order_witness:
  "\<exists>q' q''. insert_all insert_tail example_ring [5, 7] = Some q' \<and>
    pop_times pop_head 2 q' = Some ([5, 7], q'') \<and> ring_wf q'' \<and> ring_list q'' = []"
proof -
  have l: "length [5, 7 :: hwaddr] = 2" by simp
  show ?thesis
    using ring_fifo_order [OF example_ring_wf, of "[5, 7]"] unfolding l
    by (simp add: NUM_POSSIBLE_VIRTINES_def del: insert_all.simps pop_times.simps)
qed

text \<open>
  C21. \<open>insert_tail\<close> against its contract: on a well-formed queue and a non-zero address it
  returns, appends the address exactly when fewer than 100 are queued, keeps the queue well
  formed, and its result is the new TAIL, equal to the old one exactly when nothing was inserted.
\<close>

theorem insert_tail_refines:
  assumes "ring_wf q" "v \<noteq> 0"
  shows "\<exists>r q'. insert_tail q v = Some (r, q') \<and> ring_wf q' \<and>
    ring_list q' = (if length (ring_list q) < NUM_POSSIBLE_VIRTINES
                    then ring_list q @ [v] else ring_list q) \<and>
    (r = tail_offset q \<longleftrightarrow> length (ring_list q) = NUM_POSSIBLE_VIRTINES) \<and>
    r = tail_offset q'"
  using assms by (rule insert_tail_law)

theorem insert_tail_refines_witness:
  "\<exists>r q'. insert_tail example_ring 9 = Some (r, q') \<and> ring_list q' = [9]"
  using insert_tail_refines [OF example_ring_wf(1), of 9] example_ring_wf(2)
  by (auto simp: NUM_POSSIBLE_VIRTINES_def)

text \<open>
  C22. \<open>pop_head\<close> against its contract: on a well-formed queue it returns the oldest address and
  removes it, or returns 0 and changes nothing when the queue is empty; a full queue, whose HEAD
  also equals its TAIL, is told apart from an empty one.
\<close>

theorem pop_head_refines:
  assumes "ring_wf q"
  shows "\<exists>q'. pop_head q = Some (if ring_list q = [] then 0 else hd (ring_list q), q') \<and>
    ring_wf q' \<and> ring_list q' = tl (ring_list q) \<and> (q' = q \<longleftrightarrow> ring_list q = [])"
proof -
  obtain q' where q': "pop_head q = Some (if ring_list q = [] then 0 else hd (ring_list q), q')"
    "ring_wf q'" "ring_list q' = tl (ring_list q)"
    using pop_head_law [OF assms] by blast
  have "ring_at q (head_index q) (tail_index q)"
    using assms by (simp add: ring_at_def ring_wf_def)
  from pop_head_at [OF this] ring_wf_full_iff(2) [OF assms] q'(1)
  have "ring_list q = [] \<Longrightarrow> q' = q"
    by (auto simp: tail_index_def head_index_def)
  moreover have "q' = q \<Longrightarrow> ring_list q = []"
    using q'(3) by (cases "ring_list q") auto
  ultimately show ?thesis using q' by blast
qed

theorem pop_head_refines_witness: "pop_head example_ring = Some (0, example_ring)"
  using pop_head_refines [OF example_ring_wf(1)] example_ring_wf(2) by auto

text \<open>
  Memory safety of the queue for any stored values, zero included: from any state whose
  pointers point to slots, every sequence of insertions and removals stays inside the buffer.
\<close>

lemma ring_memory_safe:
  assumes "ring_ok q"
  shows "\<exists>q'. ring_run q ops = Some q' \<and> ring_ok q' \<and>
    within (head_offset q') q' \<and> within (tail_offset q') q'"
proof -
  from ring_run_ok [OF assms] obtain q' where q': "ring_run q ops = Some q'" "ring_ok q'"
    by blast
  have "within (slot_addr q' i) q'" if "i < NUM_POSSIBLE_VIRTINES" for i
    using that q'(2)
    by (simp add: within_def end_of_queue_def slot_addr_def ring_ok_def word_le_nat_alt
        unat_word_ariths unat_of_nat NUM_POSSIBLE_VIRTINES_def)
  moreover from q'(2) have "ring_at q' (head_index q') (tail_index q')"
    by (simp add: ring_at_def)
  ultimately show ?thesis using q' ring_atD by metis
qed

text \<open>
  \<open>next_element\<close> and \<open>peek_previous_element\<close> are inverse on the slots and step round the
  ring: from slot \<open>i\<close> the next pointer is slot \<open>i + 1\<close>, and slot 0 after slot 99.
\<close>

lemma element_steps_inverse:
  assumes "base_addr q = buffer_at q" "i < NUM_POSSIBLE_VIRTINES"
  shows "next_element q (slot_addr q i) = slot_addr q (Suc i mod NUM_POSSIBLE_VIRTINES) \<and>
    peek_previous_element q (next_element q (slot_addr q i)) = slot_addr q i"
proof -
  have *: "next_element q (slot_addr q i) = slot_addr q (Suc i mod NUM_POSSIBLE_VIRTINES)"
    using assms by (rule next_element_slot)
  have base: "base_addr q = slot_addr q 0" using assms(1) by (simp add: slot_addr_def)
  have "peek_previous_element q (next_element q (slot_addr q i)) = slot_addr q i"
  proof (cases "Suc i = NUM_POSSIBLE_VIRTINES")
    case True
    then have "i = NUM_POSSIBLE_VIRTINES - 1" by simp
    with True show ?thesis
      unfolding * by (simp add: peek_previous_element_def base end_of_queue_def)
  next
    case False
    with assms(2) have "Suc i mod NUM_POSSIBLE_VIRTINES = Suc i" "Suc i < NUM_POSSIBLE_VIRTINES"
      by simp_all
    then show ?thesis
      unfolding * base peek_previous_element_def Let_def
      using slot_addr_eq_iff [of "Suc i" 0 q] slot_addr_Suc [of q i] by (auto simp: algebra_simps)
  qed
  with * show ?thesis by simp
qed


text \<open>
  The range check of \<open>next_element\<close> is dead: for a pointer outside the queue the function
  still answers the address 8 bytes further on, not the NULL its comment announces, because the
  NULL is overwritten by the assignment after it.
\<close>

lemma next_element_ignores_range_check:
  assumes "\<not> within p q" "p \<noteq> end_of_queue q"
  shows "next_element q p = p + 8"
  using assms by (simp add: next_element_def)

end
