(* ===== verification/Registers.thy ===== *)
theory Registers
  imports RingQueue
begin

section \<open>The register map, on both sides of the bus\<close>

text \<open>
  The \<open>#define\<close> chains of \<open>qemu-fpga-char/virtine_fpga.c\<close> (the device) and of
  \<open>fpga-char/fpga_char_main.h\<close> (the kernel driver, names prefixed \<open>drv_\<close>).  Each register is
  the previous one plus its size; the two files are maintained by hand and must agree.
  \<open>sizeof(hwaddr)\<close> and \<open>sizeof(unsigned long)\<close> are 8 on the x86-64 target of both.
\<close>

definition sizeof_hwaddr :: u64 where "sizeof_hwaddr = 8"

definition sizeof_ulong :: u64 where "sizeof_ulong = 8"

subsection \<open>Device side\<close>

definition MMIO_BASE_ADDR :: u64 where "MMIO_BASE_ADDR = 0"

definition RQ_HEAD_OFFSET_REG :: u64 where "RQ_HEAD_OFFSET_REG = MMIO_BASE_ADDR"

definition RQ_TAIL_OFFSET_REG :: u64 where "RQ_TAIL_OFFSET_REG = RQ_HEAD_OFFSET_REG + sizeof_hwaddr"

definition RQ_BASE_ADDR :: u64 where "RQ_BASE_ADDR = RQ_TAIL_OFFSET_REG + sizeof_hwaddr"

definition DOORBELL_REG :: u64 where
  "DOORBELL_REG = RQ_BASE_ADDR + (of_nat NUM_POSSIBLE_VIRTINES * sizeof_hwaddr)"

definition IS_PROCESSING_REG :: u64 where "IS_PROCESSING_REG = DOORBELL_REG + sizeof_ulong"

definition CQ_HEAD_OFFSET_REG :: u64 where "CQ_HEAD_OFFSET_REG = IS_PROCESSING_REG + sizeof_hwaddr"

definition CQ_TAIL_OFFSET_REG :: u64 where "CQ_TAIL_OFFSET_REG = CQ_HEAD_OFFSET_REG + sizeof_hwaddr"

definition CQ_BASE_ADDR :: u64 where "CQ_BASE_ADDR = CQ_TAIL_OFFSET_REG + sizeof_hwaddr"

definition BATCH_FACTOR_REG :: u64 where
  "BATCH_FACTOR_REG = CQ_BASE_ADDR + (of_nat NUM_POSSIBLE_VIRTINES * sizeof_hwaddr)"

definition MAX_NUM_VIRTINES_REG :: u64 where "MAX_NUM_VIRTINES_REG = BATCH_FACTOR_REG + sizeof_ulong"

definition SNAPSHOT_SIZE_REG :: u64 where "SNAPSHOT_SIZE_REG = MAX_NUM_VIRTINES_REG + sizeof_ulong"

definition SNAPSHOT_ADDR_REG :: u64 where "SNAPSHOT_ADDR_REG = SNAPSHOT_SIZE_REG + sizeof_ulong"

lemma regs [reg_simps]:
  "RQ_HEAD_OFFSET_REG = 0" "RQ_TAIL_OFFSET_REG = 8" "RQ_BASE_ADDR = 16" "DOORBELL_REG = 816"
  "IS_PROCESSING_REG = 824" "CQ_HEAD_OFFSET_REG = 832" "CQ_TAIL_OFFSET_REG = 840"
  "CQ_BASE_ADDR = 848" "BATCH_FACTOR_REG = 1648" "MAX_NUM_VIRTINES_REG = 1656"
  "SNAPSHOT_SIZE_REG = 1664" "SNAPSHOT_ADDR_REG = 1672"
  by (simp_all add: RQ_HEAD_OFFSET_REG_def RQ_TAIL_OFFSET_REG_def RQ_BASE_ADDR_def
      DOORBELL_REG_def IS_PROCESSING_REG_def CQ_HEAD_OFFSET_REG_def CQ_TAIL_OFFSET_REG_def
      CQ_BASE_ADDR_def BATCH_FACTOR_REG_def MAX_NUM_VIRTINES_REG_def SNAPSHOT_SIZE_REG_def
      SNAPSHOT_ADDR_REG_def MMIO_BASE_ADDR_def sizeof_hwaddr_def sizeof_ulong_def
      NUM_POSSIBLE_VIRTINES_def)

subsection \<open>Driver side\<close>

definition drv_MMIO_BASE_ADDR :: u64 where "drv_MMIO_BASE_ADDR = 0"

definition drv_NUM_POSSIBLE_VIRTINES :: nat where "drv_NUM_POSSIBLE_VIRTINES = 100"

definition drv_RQ_HEAD_OFFSET_REG :: u64 where "drv_RQ_HEAD_OFFSET_REG = drv_MMIO_BASE_ADDR"

definition drv_RQ_TAIL_OFFSET_REG :: u64 where
  "drv_RQ_TAIL_OFFSET_REG = drv_RQ_HEAD_OFFSET_REG + sizeof_ulong"

definition drv_RQ_BASE_ADDR :: u64 where "drv_RQ_BASE_ADDR = drv_RQ_TAIL_OFFSET_REG + sizeof_ulong"

definition drv_DOORBELL_REG :: u64 where
  "drv_DOORBELL_REG = drv_RQ_BASE_ADDR + (of_nat drv_NUM_POSSIBLE_VIRTINES * sizeof_ulong)"

definition drv_IS_PROCESSING_REG :: u64 where
  "drv_IS_PROCESSING_REG = drv_DOORBELL_REG + sizeof_ulong"

definition drv_CQ_HEAD_OFFSET_REG :: u64 where
  "drv_CQ_HEAD_OFFSET_REG = drv_IS_PROCESSING_REG + sizeof_ulong"

definition drv_CQ_TAIL_OFFSET_REG :: u64 where
  "drv_CQ_TAIL_OFFSET_REG = drv_CQ_HEAD_OFFSET_REG + sizeof_ulong"

definition drv_CQ_BASE_ADDR :: u64 where "drv_CQ_BASE_ADDR = drv_CQ_TAIL_OFFSET_REG + sizeof_ulong"

definition drv_BATCH_FACTOR_REG :: u64 where
  "drv_BATCH_FACTOR_REG = drv_CQ_BASE_ADDR + (of_nat drv_NUM_POSSIBLE_VIRTINES * sizeof_ulong)"

definition drv_MAX_NUM_VIRTINES_REG :: u64 where
  "drv_MAX_NUM_VIRTINES_REG = drv_BATCH_FACTOR_REG + sizeof_ulong"

definition drv_SNAPSHOT_SIZE_REG :: u64 where
  "drv_SNAPSHOT_SIZE_REG = drv_MAX_NUM_VIRTINES_REG + sizeof_ulong"

definition drv_SNAPSHOT_ADDR_REG :: u64 where
  "drv_SNAPSHOT_ADDR_REG = drv_SNAPSHOT_SIZE_REG + sizeof_ulong"

lemma drv_regs [reg_simps]:
  "drv_RQ_HEAD_OFFSET_REG = 0" "drv_RQ_TAIL_OFFSET_REG = 8" "drv_RQ_BASE_ADDR = 16"
  "drv_DOORBELL_REG = 816" "drv_IS_PROCESSING_REG = 824" "drv_CQ_HEAD_OFFSET_REG = 832"
  "drv_CQ_TAIL_OFFSET_REG = 840" "drv_CQ_BASE_ADDR = 848" "drv_BATCH_FACTOR_REG = 1648"
  "drv_MAX_NUM_VIRTINES_REG = 1656" "drv_SNAPSHOT_SIZE_REG = 1664" "drv_SNAPSHOT_ADDR_REG = 1672"
  by (simp_all add: drv_RQ_HEAD_OFFSET_REG_def drv_RQ_TAIL_OFFSET_REG_def drv_RQ_BASE_ADDR_def
      drv_DOORBELL_REG_def drv_IS_PROCESSING_REG_def drv_CQ_HEAD_OFFSET_REG_def
      drv_CQ_TAIL_OFFSET_REG_def drv_CQ_BASE_ADDR_def drv_BATCH_FACTOR_REG_def
      drv_MAX_NUM_VIRTINES_REG_def drv_SNAPSHOT_SIZE_REG_def drv_SNAPSHOT_ADDR_REG_def
      drv_MMIO_BASE_ADDR_def sizeof_ulong_def drv_NUM_POSSIBLE_VIRTINES_def)

text \<open>The registers with their sizes in bytes, in the order of the two comment blocks.\<close>

definition device_layout :: "(u64 \<times> nat) list" where
  "device_layout =
     [(RQ_HEAD_OFFSET_REG, 8), (RQ_TAIL_OFFSET_REG, 8),
      (RQ_BASE_ADDR, NUM_POSSIBLE_VIRTINES * 8), (DOORBELL_REG, 8), (IS_PROCESSING_REG, 8),
      (CQ_HEAD_OFFSET_REG, 8), (CQ_TAIL_OFFSET_REG, 8),
      (CQ_BASE_ADDR, NUM_POSSIBLE_VIRTINES * 8), (BATCH_FACTOR_REG, 8),
      (MAX_NUM_VIRTINES_REG, 8), (SNAPSHOT_SIZE_REG, 8), (SNAPSHOT_ADDR_REG, 8)]"

definition driver_layout :: "(u64 \<times> nat) list" where
  "driver_layout =
     [(drv_RQ_HEAD_OFFSET_REG, 8), (drv_RQ_TAIL_OFFSET_REG, 8),
      (drv_RQ_BASE_ADDR, drv_NUM_POSSIBLE_VIRTINES * 8), (drv_DOORBELL_REG, 8),
      (drv_IS_PROCESSING_REG, 8), (drv_CQ_HEAD_OFFSET_REG, 8), (drv_CQ_TAIL_OFFSET_REG, 8),
      (drv_CQ_BASE_ADDR, drv_NUM_POSSIBLE_VIRTINES * 8), (drv_BATCH_FACTOR_REG, 8),
      (drv_MAX_NUM_VIRTINES_REG, 8), (drv_SNAPSHOT_SIZE_REG, 8), (drv_SNAPSHOT_ADDR_REG, 8)]"

fun packed_from :: "nat \<Rightarrow> (u64 \<times> nat) list \<Rightarrow> bool" where
  "packed_from a [] \<longleftrightarrow> True"
| "packed_from a ((r, n) # rs) \<longleftrightarrow> unat r = a \<and> 4 dvd a \<and> 0 < n \<and> packed_from (a + n) rs"

end
