(* ===== verification/VirtineDevice.thy ===== *)
theory VirtineDevice
  imports Registers
begin

section \<open>The emulated device: state and MMIO handlers\<close>

text \<open>
  \<open>VirtineFpgaDevice\<close> of \<open>qemu-fpga-char/virtine_fpga.c\<close> with its two MMIO handlers, its
  life-cycle functions and its class data.  \<open>qemu_state\<close> adds to the device the two function
  statics of the handlers and the log of the calls into QEMU (locks, condition variable, DMA,
  MSI, resources), oldest first; the log is how the order of those calls is stated.
  Calls that only print are left out, the dereferences among their arguments are not.
\<close>

datatype qemu_call =
    MutexLock | MutexUnlock | CondSignal
  | IothreadLock | IothreadUnlock
  | DmaWrite hwaddr u64 u64      \<comment> \<open>\<open>pci_dma_write(pdev, addr, buf, len)\<close>\<close>
  | MsiNotify nat
  | ConfigInterruptPin nat | MsiInit | MsiUninit
  | RegionInitIo nat | RegisterBar nat | RegionUnref
  | MutexInit | CondInit | ThreadCreate | ThreadJoin | CondDestroy | MutexDestroy
  | HostStore u64 u64            \<comment> \<open>a store through a heap pointer of the QEMU process\<close>

record VirtineFpgaDevice =
  rq :: virtine_ring_queue
  doorbell :: bool
  is_card_processing :: bool
  cq :: virtine_ring_queue
  irq_status :: u32
  batch_factor :: u32
  num_virtines_cleaned_already :: u32
  snapshot_size :: u64
  snapshot_addr :: u64
  stopping :: bool

record qemu_state =
  fpga :: VirtineFpgaDevice
  split_return :: u64
  split_write :: hwaddr
  calls :: "qemu_call list"

definition call :: "qemu_call list \<Rightarrow> qemu_state \<Rightarrow> qemu_state" where
  "call cs s = s\<lparr>calls := calls s @ cs\<rparr>"

definition set_rq :: "virtine_ring_queue \<Rightarrow> qemu_state \<Rightarrow> qemu_state" where
  "set_rq q s = s\<lparr>fpga := (fpga s)\<lparr>rq := q\<rparr>\<rparr>"

definition set_cq :: "virtine_ring_queue \<Rightarrow> qemu_state \<Rightarrow> qemu_state" where
  "set_cq q s = s\<lparr>fpga := (fpga s)\<lparr>cq := q\<rparr>\<rparr>"

lemma state_simps [simp]:
  "fpga (call cs s) = fpga s" "split_return (call cs s) = split_return s"
  "split_write (call cs s) = split_write s" "calls (call cs s) = calls s @ cs"
  "fpga (set_rq q s) = (fpga s)\<lparr>rq := q\<rparr>" "fpga (set_cq q s) = (fpga s)\<lparr>cq := q\<rparr>"
  "split_return (set_rq q s) = split_return s" "split_return (set_cq q s) = split_return s"
  "split_write (set_rq q s) = split_write s" "split_write (set_cq q s) = split_write s"
  "calls (set_rq q s) = calls s" "calls (set_cq q s) = calls s"
  by (simp_all add: call_def set_rq_def set_cq_def)

subsection \<open>MMIO reads\<close>

definition virtine_fpga_mmio_read ::
  "qemu_state \<Rightarrow> hwaddr \<Rightarrow> nat \<Rightarrow> (u64 \<times> qemu_state) option" where
  "virtine_fpga_mmio_read s addr sz =
    (let f = fpga s; val = NOT 0 :: u64 in
     if addr = RQ_BASE_ADDR then Some (val, s)
     else if addr = RQ_BASE_ADDR + 4 then Some (val, s)
     else if addr = RQ_HEAD_OFFSET_REG then
       map_option (\<lambda>v. (v, s)) (deref (rq f) (head_offset (rq f)))
     else if addr = RQ_HEAD_OFFSET_REG + 4 then
       map_option (\<lambda>v. (drop_bit 32 v, s)) (deref (rq f) (head_offset (rq f)))
     else if addr = RQ_TAIL_OFFSET_REG then Some (val, s)
     else if addr = RQ_TAIL_OFFSET_REG + 4 then Some (val, s)
     else if addr = CQ_BASE_ADDR then
       map_option (\<lambda>v. (v, s)) (deref (cq f) (base_addr (cq f)))
     else if addr = CQ_BASE_ADDR + 4 then
       map_option (\<lambda>v. (drop_bit 32 v, s)) (deref (cq f) (base_addr (cq f)))
     else if addr = CQ_HEAD_OFFSET_REG then do {
       let s = call [MutexLock] s;
       (v, q) \<leftarrow> pop_head (cq f);
       let s = (set_cq q s)\<lparr>split_return := v\<rparr>;
       let s = call [MutexUnlock] s;
       Some (split_return s, s)
     }
     else if addr = CQ_HEAD_OFFSET_REG + 4 then
       Some (drop_bit 32 (split_return s), s\<lparr>split_return := 0\<rparr>)
     else if addr = CQ_TAIL_OFFSET_REG then
       map_option (\<lambda>v. (v, s)) (deref (cq f) (tail_offset (cq f)))
     else if addr = CQ_TAIL_OFFSET_REG + 4 then
       map_option (\<lambda>v. (drop_bit 32 v, s)) (deref (cq f) (tail_offset (cq f)))
     else if addr = IS_PROCESSING_REG then Some (of_bool (is_card_processing f), s)
     else if addr = BATCH_FACTOR_REG then Some (ucast (batch_factor f), s)
     else if addr = DOORBELL_REG then Some (of_bool (doorbell f), s)
     else if addr = MAX_NUM_VIRTINES_REG then Some (of_nat NUM_POSSIBLE_VIRTINES, s)
     else if addr = SNAPSHOT_SIZE_REG then Some (snapshot_size f, s)
     else if addr = SNAPSHOT_ADDR_REG then Some (snapshot_addr f, s)
     else if addr = SNAPSHOT_ADDR_REG + 4 then Some (drop_bit 32 (snapshot_addr f), s)
     else Some (val, s))"

subsection \<open>MMIO writes\<close>

definition virtine_fpga_mmio_write ::
  "qemu_state \<Rightarrow> hwaddr \<Rightarrow> u64 \<Rightarrow> nat \<Rightarrow> qemu_state option" where
  "virtine_fpga_mmio_write s addr val sz =
    (let f = fpga s in
     if addr = RQ_BASE_ADDR then Some s
     else if addr = RQ_HEAD_OFFSET_REG then Some s
     else if addr = RQ_TAIL_OFFSET_REG then Some (s\<lparr>split_write := val\<rparr>)
     else if addr = RQ_TAIL_OFFSET_REG + 4 then do {
       let val = push_bit 32 val;
       let s = s\<lparr>split_write := val OR split_write s\<rparr>;
       let s = call [MutexLock] s;
       (_, q) \<leftarrow> insert_tail (rq f) (split_write s);
       let s = call [MutexUnlock] (set_rq q s);
       Some s
     }
     else if addr = CQ_BASE_ADDR then Some s
     else if addr = CQ_HEAD_OFFSET_REG then Some s
     else if addr = CQ_TAIL_OFFSET_REG then Some s
     else if addr = IS_PROCESSING_REG then Some s
     else if addr = BATCH_FACTOR_REG then Some (s\<lparr>fpga := f\<lparr>batch_factor := ucast val\<rparr>\<rparr>)
     else if addr = DOORBELL_REG then
       Some (call [CondSignal] (s\<lparr>fpga := f\<lparr>doorbell := True\<rparr>\<rparr>))
     else if addr = MAX_NUM_VIRTINES_REG then Some s
     else if addr = SNAPSHOT_SIZE_REG then Some (s\<lparr>fpga := f\<lparr>snapshot_size := val\<rparr>\<rparr>)
     else if addr = SNAPSHOT_ADDR_REG then Some (s\<lparr>fpga := f\<lparr>snapshot_addr := val\<rparr>\<rparr>)
     else if addr = SNAPSHOT_ADDR_REG + 4 then
       (let temp = snapshot_addr f
        in Some (s\<lparr>fpga := f\<lparr>snapshot_addr := push_bit 32 val OR temp\<rparr>\<rparr>))
     else Some s)"


subsection \<open>Life cycle and class data\<close>

text \<open>
  \<open>msi_init\<close>'s status and the address \<open>g_malloc\<close> returns are arguments.  The instance memory
  itself is not cleared by the code: \<open>virtine_fpga_realize\<close> starts from the state the object
  is created in.
\<close>

definition GiB :: nat where "GiB = 2 ^ 30"

definition virtine_fpga_realize :: "int \<Rightarrow> u64 \<Rightarrow> qemu_state \<Rightarrow> qemu_state" where
  "virtine_fpga_realize msi_init clean_state s =
    (let s = call [ConfigInterruptPin 1, MsiInit] s in
     if msi_init \<noteq> 0 then s
     else
       let s = call [RegionInitIo (1 * GiB), RegisterBar 0] s;
           s = set_rq (reset_queue_pointers (rq (fpga s))) s;
           s = set_cq (reset_queue_pointers (cq (fpga s))) s;
           s = s\<lparr>fpga := (fpga s)\<lparr>doorbell := False, is_card_processing := False,
                  batch_factor := 1, num_virtines_cleaned_already := 0\<rparr>\<rparr>;
           s = call [MutexInit, CondInit, ThreadCreate] s;
           s = s\<lparr>fpga := (fpga s)\<lparr>snapshot_size := 8\<rparr>\<rparr>;
           s = call [HostStore clean_state 0xfeedbeaddeadbeef] s
       in s\<lparr>fpga := (fpga s)\<lparr>snapshot_addr := clean_state\<rparr>\<rparr>)"

definition virtine_fpga_uninit :: "qemu_state \<Rightarrow> qemu_state" where
  "virtine_fpga_uninit s =
    (let s = call [MsiUninit, MutexLock] s;
         s = s\<lparr>fpga := (fpga s)\<lparr>stopping := True\<rparr>\<rparr>
     in call [MutexUnlock, CondSignal, ThreadJoin, CondDestroy, MutexDestroy, RegionUnref] s)"

definition PCI_CLASS_COPROCESSOR :: u16 where "PCI_CLASS_COPROCESSOR = 0x12"

record pci_class =
  vendor_id :: u16
  device_id :: u16
  revision :: u8
  class_id :: u16

definition virtine_fpga_class_init :: pci_class where
  "virtine_fpga_class_init =
     \<lparr>vendor_id = 0x1172, device_id = 0xE003, revision = 0, class_id = PCI_CLASS_COPROCESSOR\<rparr>"

subsection \<open>The device invariants\<close>

definition dev_ok :: "qemu_state \<Rightarrow> bool" where
  "dev_ok s \<longleftrightarrow> ring_ok (rq (fpga s)) \<and> ring_ok (cq (fpga s))"

definition dev_wf :: "qemu_state \<Rightarrow> bool" where
  "dev_wf s \<longleftrightarrow> ring_wf (rq (fpga s)) \<and> ring_wf (cq (fpga s))"

abbreviation rq_list :: "qemu_state \<Rightarrow> hwaddr list" where
  "rq_list s \<equiv> ring_list (rq (fpga s))"

abbreviation cq_list :: "qemu_state \<Rightarrow> hwaddr list" where
  "cq_list s \<equiv> ring_list (cq (fpga s))"

lemma dev_wf_ok: "dev_wf s \<Longrightarrow> dev_ok s"
  by (simp add: dev_wf_def dev_ok_def ring_wf_def)

text \<open>The registers' equations, one per register that does something.\<close>

lemma ring_ok_derefs:
  assumes "ring_ok q"
  shows "deref q (head_offset q) = Some (buffer q ! head_index q)"
    "deref q (tail_offset q) = Some (buffer q ! tail_index q)"
    "deref q (base_addr q) = Some (buffer q ! 0)"
proof -
  obtain h t where at: "ring_at q h t" using assms by (rule ring_okE)
  note d = ring_atD [OF at]
  show "deref q (head_offset q) = Some (buffer q ! head_index q)"
    "deref q (tail_offset q) = Some (buffer q ! tail_index q)"
    using d at by (simp_all add: deref_slot ring_at_def)
  have "base_addr q = slot_addr q 0" using d by (simp add: slot_addr_def)
  then show "deref q (base_addr q) = Some (buffer q ! 0)"
    by (simp add: deref_slot NUM_POSSIBLE_VIRTINES_def)
qed

lemma mmio_read_regs [dev_simps]:
  "virtine_fpga_mmio_read s RQ_HEAD_OFFSET_REG n =
     map_option (\<lambda>v. (v, s)) (deref (rq (fpga s)) (head_offset (rq (fpga s))))"
  "virtine_fpga_mmio_read s CQ_HEAD_OFFSET_REG n =
     map_option (\<lambda>(v, q). (v, (set_cq q (call [MutexLock, MutexUnlock] s))\<lparr>split_return := v\<rparr>))
       (pop_head (cq (fpga s)))"
  "virtine_fpga_mmio_read s (CQ_HEAD_OFFSET_REG + 4) n =
     Some (drop_bit 32 (split_return s), s\<lparr>split_return := 0\<rparr>)"
  "virtine_fpga_mmio_read s IS_PROCESSING_REG n = Some (of_bool (is_card_processing (fpga s)), s)"
  "virtine_fpga_mmio_read s BATCH_FACTOR_REG n = Some (ucast (batch_factor (fpga s)), s)"
  "virtine_fpga_mmio_read s DOORBELL_REG n = Some (of_bool (doorbell (fpga s)), s)"
  "virtine_fpga_mmio_read s MAX_NUM_VIRTINES_REG n = Some (of_nat NUM_POSSIBLE_VIRTINES, s)"
  "virtine_fpga_mmio_read s SNAPSHOT_SIZE_REG n = Some (snapshot_size (fpga s), s)"
  "virtine_fpga_mmio_read s SNAPSHOT_ADDR_REG n = Some (snapshot_addr (fpga s), s)"
  "virtine_fpga_mmio_read s (SNAPSHOT_ADDR_REG + 4) n =
     Some (drop_bit 32 (snapshot_addr (fpga s)), s)"
  by (auto simp: virtine_fpga_mmio_read_def reg_simps Let_def call_def set_cq_def
      split: bind_splits)

lemma mmio_write_regs [dev_simps]:
  "virtine_fpga_mmio_write s RQ_TAIL_OFFSET_REG v n = Some (s\<lparr>split_write := v\<rparr>)"
  "virtine_fpga_mmio_write s (RQ_TAIL_OFFSET_REG + 4) v n =
     (let w = push_bit 32 v OR split_write s in
      map_option (\<lambda>(_, q). (set_rq q (call [MutexLock, MutexUnlock] s))\<lparr>split_write := w\<rparr>)
        (insert_tail (rq (fpga s)) w))"
  "virtine_fpga_mmio_write s BATCH_FACTOR_REG v n =
     Some (s\<lparr>fpga := (fpga s)\<lparr>batch_factor := ucast v\<rparr>\<rparr>)"
  "virtine_fpga_mmio_write s DOORBELL_REG v n =
     Some (call [CondSignal] (s\<lparr>fpga := (fpga s)\<lparr>doorbell := True\<rparr>\<rparr>))"
  "virtine_fpga_mmio_write s SNAPSHOT_SIZE_REG v n =
     Some (s\<lparr>fpga := (fpga s)\<lparr>snapshot_size := v\<rparr>\<rparr>)"
  "virtine_fpga_mmio_write s (SNAPSHOT_SIZE_REG + 4) v n = Some s"
  "virtine_fpga_mmio_write s SNAPSHOT_ADDR_REG v n =
     Some (s\<lparr>fpga := (fpga s)\<lparr>snapshot_addr := v\<rparr>\<rparr>)"
  "virtine_fpga_mmio_write s (SNAPSHOT_ADDR_REG + 4) v n =
     Some (s\<lparr>fpga := (fpga s)\<lparr>snapshot_addr := push_bit 32 v OR snapshot_addr (fpga s)\<rparr>\<rparr>)"
  by (auto simp: virtine_fpga_mmio_write_def reg_simps Let_def call_def set_rq_def
      split: bind_splits)


subsection \<open>Sequences of MMIO accesses\<close>

datatype mmio_op = ReadReg hwaddr | WriteReg hwaddr u64

fun mmio_step :: "qemu_state \<Rightarrow> mmio_op \<Rightarrow> qemu_state option" where
  "mmio_step s (ReadReg a) = map_option snd (virtine_fpga_mmio_read s a 4)"
| "mmio_step s (WriteReg a v) = virtine_fpga_mmio_write s a v 4"

fun mmio_run :: "qemu_state \<Rightarrow> mmio_op list \<Rightarrow> qemu_state option" where
  "mmio_run s [] = Some s"
| "mmio_run s (op # ops) = Option.bind (mmio_step s op) (\<lambda>s. mmio_run s ops)"

lemma mmio_read_frame:
  assumes "dev_ok s" "a \<noteq> CQ_HEAD_OFFSET_REG" "a \<noteq> CQ_HEAD_OFFSET_REG + 4"
  shows "\<exists>v. virtine_fpga_mmio_read s a n = Some (v, s)"
proof -
  from assms(1) have d: "ring_ok (rq (fpga s))" "ring_ok (cq (fpga s))" by (auto simp: dev_ok_def)
  show ?thesis
    using assms(2,3) ring_ok_derefs [OF d(1)] ring_ok_derefs [OF d(2)]
    by (auto simp: virtine_fpga_mmio_read_def Let_def)
qed

lemma mmio_write_frame:
  assumes "a \<notin> {RQ_TAIL_OFFSET_REG, RQ_TAIL_OFFSET_REG + 4, BATCH_FACTOR_REG, DOORBELL_REG,
    SNAPSHOT_SIZE_REG, SNAPSHOT_ADDR_REG, SNAPSHOT_ADDR_REG + 4}"
  shows "virtine_fpga_mmio_write s a v n = Some s"
  using assms by (auto simp: virtine_fpga_mmio_write_def Let_def)

lemma mmio_read_ok:
  assumes "dev_ok s"
  shows "\<exists>v s'. virtine_fpga_mmio_read s a n = Some (v, s') \<and> dev_ok s' \<and>
    rq (fpga s') = rq (fpga s)"
proof -
  consider (head) "a = CQ_HEAD_OFFSET_REG" | (head4) "a = CQ_HEAD_OFFSET_REG + 4"
    | (other) "a \<noteq> CQ_HEAD_OFFSET_REG" "a \<noteq> CQ_HEAD_OFFSET_REG + 4" by blast
  then show ?thesis
  proof cases
    case head
    from assms ring_safe.pop_safe [of "cq (fpga s)"] show ?thesis
      unfolding head by (fastforce simp: dev_simps dev_ok_def)
  next
    case head4
    with assms show ?thesis by (simp add: dev_simps dev_ok_def)
  next
    case other
    from mmio_read_frame [OF assms other] assms show ?thesis by blast
  qed
qed

lemma mmio_write_ok:
  assumes "dev_ok s"
  shows "\<exists>s'. virtine_fpga_mmio_write s a v n = Some s' \<and> dev_ok s' \<and> cq (fpga s') = cq (fpga s)"
proof -
  consider (tail4) "a = RQ_TAIL_OFFSET_REG + 4"
    | (reg) "a \<in> {RQ_TAIL_OFFSET_REG, BATCH_FACTOR_REG, DOORBELL_REG,
        SNAPSHOT_SIZE_REG, SNAPSHOT_ADDR_REG, SNAPSHOT_ADDR_REG + 4}"
    | (other) "a \<notin> {RQ_TAIL_OFFSET_REG, RQ_TAIL_OFFSET_REG + 4, BATCH_FACTOR_REG,
        DOORBELL_REG, SNAPSHOT_SIZE_REG, SNAPSHOT_ADDR_REG, SNAPSHOT_ADDR_REG + 4}" by blast
  then show ?thesis
  proof cases
    case tail4
    from assms ring_safe.ins_safe [of "rq (fpga s)" "push_bit 32 v OR split_write s"] show ?thesis
      unfolding tail4 by (fastforce simp: dev_simps dev_ok_def Let_def)
  next
    case reg
    with assms show ?thesis by (auto simp: dev_simps dev_ok_def)
  next
    case other
    from mmio_write_frame [OF other] assms show ?thesis by simp
  qed
qed

lemma mmio_step_ok: "dev_ok s \<Longrightarrow> \<exists>s'. mmio_step s op = Some s' \<and> dev_ok s'"
  using mmio_read_ok mmio_write_ok by (cases op) fastforce+

lemma mmio_run_ok: "dev_ok s \<Longrightarrow> \<exists>s'. mmio_run s ops = Some s' \<and> dev_ok s'"
proof (induction ops arbitrary: s)
  case (Cons op ops)
  from mmio_step_ok [OF Cons.prems, of op] obtain s1 where
    "mmio_step s op = Some s1" "dev_ok s1" by blast
  with Cons.IH show ?case by simp
qed simp

subsection \<open>A freshly created device\<close>

definition created :: "u64 \<Rightarrow> u64 \<Rightarrow> qemu_state" where
  "created rq_at cq_at = \<lparr>
     fpga = \<lparr>rq = zeroed_ring rq_at, doorbell = False, is_card_processing = False,
       cq = zeroed_ring cq_at, irq_status = 0, batch_factor = 0,
       num_virtines_cleaned_already = 0, snapshot_size = 0, snapshot_addr = 0, stopping = False\<rparr>,
     split_return = 0, split_write = 0, calls = []\<rparr>"

abbreviation example_device :: qemu_state where
  "example_device \<equiv> virtine_fpga_realize 0 0x7000 (created 0x1000 0x2000)"

lemma realize_fields:
  "rq (fpga (virtine_fpga_realize 0 p s)) = reset_queue_pointers (rq (fpga s))"
  "cq (fpga (virtine_fpga_realize 0 p s)) = reset_queue_pointers (cq (fpga s))"
  "doorbell (fpga (virtine_fpga_realize 0 p s)) = False"
  "is_card_processing (fpga (virtine_fpga_realize 0 p s)) = False"
  "batch_factor (fpga (virtine_fpga_realize 0 p s)) = 1"
  "num_virtines_cleaned_already (fpga (virtine_fpga_realize 0 p s)) = 0"
  "snapshot_size (fpga (virtine_fpga_realize 0 p s)) = 8"
  "snapshot_addr (fpga (virtine_fpga_realize 0 p s)) = p"
  "stopping (fpga (virtine_fpga_realize 0 p s)) = stopping (fpga s)"
  by (simp_all add: virtine_fpga_realize_def Let_def)

lemma created_realized:
  assumes "unat a + 8 * NUM_POSSIBLE_VIRTINES < 2 ^ 64" "unat b + 8 * NUM_POSSIBLE_VIRTINES < 2 ^ 64"
  shows "dev_wf (virtine_fpga_realize 0 p (created a b)) \<and>
    rq_list (virtine_fpga_realize 0 p (created a b)) = [] \<and>
    cq_list (virtine_fpga_realize 0 p (created a b)) = []"
  using zeroed_ring_wf [OF assms(1)] zeroed_ring_wf [OF assms(2)]
  by (simp add: dev_wf_def realize_fields created_def)

lemma example_device_wf:
  "dev_wf example_device" "rq_list example_device = []" "cq_list example_device = []"
  using created_realized [of "0x1000" "0x2000" "0x7000"] by (simp_all add: NUM_POSSIBLE_VIRTINES_def)


lemma loaded_device:
  assumes "0 \<notin> set vs" "length vs \<le> NUM_POSSIBLE_VIRTINES"
  shows "\<exists>s. dev_wf s \<and> rq_list s = vs \<and> cq_list s = [] \<and> batch_factor (fpga s) = 1 \<and>
    num_virtines_cleaned_already (fpga s) = 0 \<and> snapshot_size (fpga s) = 8 \<and>
    snapshot_addr (fpga s) = 0x7000"
proof -
  have rq: "ring_wf (rq (fpga example_device))" and cq: "ring_wf (cq (fpga example_device))"
    using example_device_wf(1) by (simp_all add: dev_wf_def)
  from ring_fifo.insert_all_contents [OF rq assms(1)] assms(2) obtain q where
    q: "ring_wf q" "ring_list q = vs"
    unfolding example_device_wf(2) by auto
  let ?s = "set_rq q example_device"
  have "dev_wf ?s" "rq_list ?s = vs" "cq_list ?s = []"
    using q cq example_device_wf(3) by (simp_all add: dev_wf_def)
  moreover have "batch_factor (fpga ?s) = 1" "num_virtines_cleaned_already (fpga ?s) = 0"
    "snapshot_size (fpga ?s) = 8" "snapshot_addr (fpga ?s) = 0x7000"
    by (simp_all add: realize_fields)
  ultimately show ?thesis by blast
qed

subsection \<open>Properties of the MMIO interface\<close>

lemma cq_read_pair:
  assumes "dev_wf s"
  shows "\<exists>v1 s1 v2 s2.
    virtine_fpga_mmio_read s CQ_HEAD_OFFSET_REG 4 = Some (v1, s1) \<and>
    virtine_fpga_mmio_read s1 (CQ_HEAD_OFFSET_REG + 4) 4 = Some (v2, s2) \<and>
    join32 (lo32 v1) (lo32 v2) = (if cq_list s = [] then 0 else hd (cq_list s)) \<and>
    dev_wf s2 \<and> cq_list s2 = tl (cq_list s) \<and> rq (fpga s2) = rq (fpga s) \<and>
    calls s2 = calls s @ [MutexLock, MutexUnlock]"
proof -
  from assms have cq: "ring_wf (cq (fpga s))" and rq: "ring_wf (rq (fpga s))"
    by (auto simp: dev_wf_def)
  let ?v = "if cq_list s = [] then 0 else hd (cq_list s)"
  obtain q where "pop_head (cq (fpga s)) = Some (?v, q)" "ring_wf q" "ring_list q = tl (cq_list s)"
    using ring_fifo.popE [OF cq] .
  with rq show ?thesis by (simp add: dev_simps dev_wf_def)
qed

lemma rq_write_pair:
  assumes "dev_wf s" "v \<noteq> 0"
  shows "\<exists>s1 s2.
    virtine_fpga_mmio_write s RQ_TAIL_OFFSET_REG (ucast (lo32 v)) 4 = Some s1 \<and>
    virtine_fpga_mmio_write s1 (RQ_TAIL_OFFSET_REG + 4) (ucast (hi32 v)) 4 = Some s2 \<and>
    dev_wf s2 \<and> cq (fpga s2) = cq (fpga s) \<and>
    rq_list s2 = (if length (rq_list s) < NUM_POSSIBLE_VIRTINES
                  then rq_list s @ [v] else rq_list s) \<and>
    calls s2 = calls s @ [MutexLock, MutexUnlock]"
proof -
  from assms have cq: "ring_wf (cq (fpga s))" and rq: "ring_wf (rq (fpga s))"
    by (auto simp: dev_wf_def)
  obtain r q where "insert_tail (rq (fpga s)) v = Some (r, q)" "ring_wf q"
    "ring_list q = (if length (rq_list s) < NUM_POSSIBLE_VIRTINES
                    then rq_list s @ [v] else rq_list s)"
    using ring_fifo.insE [OF rq assms(2)] .
  with cq show ?thesis by (simp add: dev_simps dev_wf_def Let_def)
qed

text \<open>
  The snapshot registers written in 32-bit halves, as the driver does: the address arrives
  whole, but the write of the size's upper half, at \<open>SNAPSHOT_SIZE_REG + 4\<close>, is not decoded, so a
  snapshot size is cut to its low 32 bits.
\<close>

lemma snapshot_write_pairs:
  "\<exists>s1 s2 s3 s4.
    virtine_fpga_mmio_write s SNAPSHOT_SIZE_REG (ucast (lo32 sz)) 4 = Some s1 \<and>
    virtine_fpga_mmio_write s1 (SNAPSHOT_SIZE_REG + 4) (ucast (hi32 sz)) 4 = Some s2 \<and>
    virtine_fpga_mmio_write s2 SNAPSHOT_ADDR_REG (ucast (lo32 a)) 4 = Some s3 \<and>
    virtine_fpga_mmio_write s3 (SNAPSHOT_ADDR_REG + 4) (ucast (hi32 a)) 4 = Some s4 \<and>
    fpga s4 = (fpga s)\<lparr>snapshot_size := sz AND 0xFFFFFFFF, snapshot_addr := a\<rparr>"
proof -
  have "ucast (lo32 sz) = sz AND (0xFFFFFFFF :: u64)"
  proof -
    have "ucast (lo32 sz) = sz AND (mask 32 :: u64)"
      by (rule bit_word_eqI) (auto simp: lo32_def bit_simps)
    then show ?thesis by (simp add: mask_eq_exp_minus_1)
  qed
  then show ?thesis by (simp add: dev_simps)
qed

text \<open>
  C23. Memory safety of the whole MMIO interface: whatever sequence of register reads and writes
  the guest issues, with any addresses and values, no handler leaves the two ring buffers.
\<close>

theorem mmio_memory_safe:
  assumes "dev_ok s"
  shows "\<exists>s'. mmio_run s ops = Some s' \<and> dev_ok s'"
  using assms by (rule mmio_run_ok)

theorem mmio_memory_safe_witness:
  "\<exists>s'. mmio_run example_device [WriteReg 12 0, ReadReg 832, ReadReg 7, WriteReg 900 1] = Some s' \<and>
    dev_ok s'"
  by (rule mmio_memory_safe [OF dev_wf_ok [OF example_device_wf(1)]])

text \<open>
  Reads have no side effect but those of the completion queue's head register: a read of any
  other address, known or not, leaves the device, the statics and the call log as they were; and a
  write to any address but the seven writable ones is ignored.
\<close>

lemma mmio_accesses_confined:
  assumes "dev_ok s"
  shows "(a \<noteq> CQ_HEAD_OFFSET_REG \<longrightarrow> a \<noteq> CQ_HEAD_OFFSET_REG + 4 \<longrightarrow>
      (\<exists>v. virtine_fpga_mmio_read s a n = Some (v, s))) \<and>
    (a \<notin> {RQ_TAIL_OFFSET_REG, RQ_TAIL_OFFSET_REG + 4, BATCH_FACTOR_REG, DOORBELL_REG,
       SNAPSHOT_SIZE_REG, SNAPSHOT_ADDR_REG, SNAPSHOT_ADDR_REG + 4} \<longrightarrow>
      virtine_fpga_mmio_write s a w n = Some s)"
  using mmio_read_frame [OF assms] mmio_write_frame by blast

end
