(* ===== verification/Cleanup.thy ===== *)
theory Cleanup
  imports VirtineDevice
begin

section \<open>The clean-up pass of the co-processor thread\<close>

text \<open>
  The body of \<open>virtine_fpga_virtine_cleanup\<close> as one thread runs it while it holds the
  processing lock: \<open>clean_virtine\<close> is the body of the inner loop up to its last pop (with
  \<open>restore_virtine\<close> its part before the interrupt test), \<open>clean_loop\<close> the inner loop, \<open>clean_pass\<close> what one ring of the doorbell triggers, and
  \<open>cleanup_turn\<close> one round of the outer loop, from taking the lock to going to sleep, leaving
  the thread or finishing the pass.  The interleaving with the virtual CPU is the subject of
  the theory \<open>Interleaving\<close>, which is built from the same pieces.
\<close>

definition set_processing :: "qemu_state \<Rightarrow> qemu_state" where
  "set_processing s = s\<lparr>fpga := (fpga s)\<lparr>is_card_processing := True\<rparr>\<rparr>"

definition clear_doorbell :: "qemu_state \<Rightarrow> qemu_state" where
  "clear_doorbell s = s\<lparr>fpga := (fpga s)\<lparr>doorbell := False\<rparr>\<rparr>"

definition restore_virtine :: "qemu_state \<Rightarrow> hwaddr \<Rightarrow> qemu_state option" where
  "restore_virtine s virtine_to_clean = do {
     let s = call [DmaWrite virtine_to_clean (snapshot_addr (fpga s)) (snapshot_size (fpga s))] s;
     let s = s\<lparr>fpga := (fpga s)\<lparr>num_virtines_cleaned_already :=
                                  num_virtines_cleaned_already (fpga s) + 1\<rparr>\<rparr>;
     (_, q) \<leftarrow> insert_tail (cq (fpga s)) virtine_to_clean;
     let s = set_cq q s;
     _ \<leftarrow> deref (rq (fpga s)) (base_addr (rq (fpga s)));
     _ \<leftarrow> deref (rq (fpga s)) (head_offset (rq (fpga s)));
     _ \<leftarrow> deref (cq (fpga s)) (head_offset (cq (fpga s)));
     Some (s\<lparr>fpga := (fpga s)\<lparr>is_card_processing := False\<rparr>\<rparr>)
   }"

definition batch_reached :: "qemu_state \<Rightarrow> bool" where
  "batch_reached s \<longleftrightarrow> num_virtines_cleaned_already (fpga s) \<ge> batch_factor (fpga s)"

definition reset_cleaned :: "qemu_state \<Rightarrow> qemu_state" where
  "reset_cleaned s = s\<lparr>fpga := (fpga s)\<lparr>num_virtines_cleaned_already := 0\<rparr>\<rparr>"

definition clean_virtine :: "qemu_state \<Rightarrow> hwaddr \<Rightarrow> qemu_state option" where
  "clean_virtine s virtine_to_clean = do {
     s \<leftarrow> restore_virtine s virtine_to_clean;
     Some (if batch_reached s
           then reset_cleaned (call [IothreadUnlock] (call [MsiNotify 0] (call [IothreadLock] s)))
           else s)
   }"

definition pop_rq :: "qemu_state \<Rightarrow> (hwaddr \<times> qemu_state) option" where
  "pop_rq s = map_option (\<lambda>(v, q). (v, set_rq q s)) (pop_head (rq (fpga s)))"

partial_function (option) clean_loop :: "qemu_state \<Rightarrow> hwaddr \<Rightarrow> qemu_state option" where
  "clean_loop s virtine_to_clean =
     (if virtine_to_clean = 0 then Some s
      else Option.bind (clean_virtine s virtine_to_clean)
             (\<lambda>s. Option.bind (pop_rq s) (\<lambda>r. clean_loop (snd r) (fst r))))"

definition clean_pass :: "qemu_state \<Rightarrow> qemu_state option" where
  "clean_pass s = do {
     let s = clear_doorbell (set_processing s);
     (virtine_to_clean, s) \<leftarrow> pop_rq s;
     s \<leftarrow> clean_loop s virtine_to_clean;
     Some (call [MutexUnlock] s)
   }"

datatype turn = Sleeps qemu_state | Exits qemu_state | Cleaned qemu_state

definition cleanup_turn :: "qemu_state \<Rightarrow> turn option" where
  "cleanup_turn s =
    (let s = call [MutexLock] s in
     if \<not> doorbell (fpga s) \<and> \<not> stopping (fpga s) then Some (Sleeps s)
     else if stopping (fpga s) then Some (Exits (call [MutexUnlock] s))
     else map_option Cleaned (clean_pass s))"

subsection \<open>Every pass returns\<close>

definition nonzero_slots :: "virtine_ring_queue \<Rightarrow> nat" where
  "nonzero_slots q = size (filter_mset (\<lambda>v. v \<noteq> 0) (mset (buffer q)))"

lemma pop_head_nonzero_slots:
  assumes "ring_ok q" "pop_head q = Some (v, q')" "v \<noteq> 0"
  shows "nonzero_slots q' < nonzero_slots q"
proof -
  obtain h t where at: "ring_at q h t" using assms(1) by (rule ring_okE)
  note d = ring_atD [OF at]
  from assms(2,3) have q': "buffer q ! h = v" "buffer q' = (buffer q)[h := 0]"
    by (auto simp: pop_head_at [OF at] popped_def)
  let ?F = "filter_mset (\<lambda>v. v \<noteq> 0) (mset (buffer q))"
  have "v \<in># ?F"
    using q'(1) d(1,5) assms(3) nth_mem [of h "buffer q"] by simp
  then have "size (?F - {#v#}) < size ?F" by (rule size_Diff1_less)
  moreover have "filter_mset (\<lambda>v. v \<noteq> 0) (mset (buffer q')) = ?F - {#v#}"
    using d(1,5) q' assms(3) by (simp add: mset_update filter_diff_mset)
  ultimately show ?thesis by (simp add: nonzero_slots_def)
qed

text \<open>
  \<open>clean_virtine\<close> as one record update, once the insertion into the completion queue is known.
\<close>

definition irq_due :: "qemu_state \<Rightarrow> bool" where
  "irq_due s \<longleftrightarrow> batch_factor (fpga s) \<le> num_virtines_cleaned_already (fpga s) + 1"

definition virtine_cleaned :: "qemu_state \<Rightarrow> hwaddr \<Rightarrow> virtine_ring_queue \<Rightarrow> qemu_state" where
  "virtine_cleaned s v q = s\<lparr>
     fpga := (fpga s)\<lparr>
       num_virtines_cleaned_already :=
         (if irq_due s then 0 else num_virtines_cleaned_already (fpga s) + 1),
       cq := q, is_card_processing := False\<rparr>,
     calls := calls s @ DmaWrite v (snapshot_addr (fpga s)) (snapshot_size (fpga s)) #
       (if irq_due s then [IothreadLock, MsiNotify 0, IothreadUnlock] else [])\<rparr>"

lemma clean_virtine_eq:
  assumes "ring_ok (rq (fpga s))" "insert_tail (cq (fpga s)) v = Some (r, q)" "ring_ok q"
  shows "clean_virtine s v = Some (virtine_cleaned s v q)"
  using ring_ok_derefs [OF assms(1)] ring_ok_derefs [OF assms(3)] assms(2)
  by (simp add: clean_virtine_def restore_virtine_def Let_def virtine_cleaned_def irq_due_def
      batch_reached_def reset_cleaned_def call_def set_cq_def)

lemma virtine_cleaned_queues [simp]:
  "rq (fpga (virtine_cleaned s v q)) = rq (fpga s)" "cq (fpga (virtine_cleaned s v q)) = q"
  by (simp_all add: virtine_cleaned_def)

lemma clean_virtine_ok:
  assumes "dev_ok s"
  obtains s' where "clean_virtine s v = Some s'" "dev_ok s'" "rq (fpga s') = rq (fpga s)"
proof -
  from assms have rq: "ring_ok (rq (fpga s))" and cq: "ring_ok (cq (fpga s))"
    by (auto simp: dev_ok_def)
  from ring_safe.ins_safe [OF cq, of v] obtain r q where
    q: "insert_tail (cq (fpga s)) v = Some (r, q)" "ring_ok q" by blast
  show ?thesis
    by (rule that [OF clean_virtine_eq [OF rq q]]) (simp_all add: dev_ok_def rq q)
qed

lemma pop_rq_ok:
  assumes "dev_ok s"
  obtains v s' where "pop_rq s = Some (v, s')" "dev_ok s'"
    "v \<noteq> 0 \<Longrightarrow> nonzero_slots (rq (fpga s')) < nonzero_slots (rq (fpga s))"
proof -
  from assms have rq: "ring_ok (rq (fpga s))" and cq: "ring_ok (cq (fpga s))"
    by (auto simp: dev_ok_def)
  from ring_safe.pop_safe [OF rq] obtain v q where
    q: "pop_head (rq (fpga s)) = Some (v, q)" "ring_ok q" by blast
  from q(1) have "pop_rq s = Some (v, set_rq q s)" by (simp add: pop_rq_def)
  then show ?thesis
    by (rule that) (use q cq pop_head_nonzero_slots [OF rq q(1)] in \<open>auto simp: dev_ok_def\<close>)
qed

lemma clean_loop_0 [simp]: "clean_loop s 0 = Some s"
  by (simp add: clean_loop.simps [of s 0])

lemma clean_loop_step:
  "v \<noteq> 0 \<Longrightarrow> clean_virtine s v = Some s1 \<Longrightarrow> pop_rq s1 = Some (w, s2) \<Longrightarrow>
   clean_loop s v = clean_loop s2 w"
  by (simp add: clean_loop.simps [of s v])

lemma clean_loop_returns:
  assumes "dev_ok s"
  shows "\<exists>s'. clean_loop s v = Some s' \<and> dev_ok s'"
  using assms
proof (induction "nonzero_slots (rq (fpga s))" arbitrary: s v rule: less_induct)
  case less
  show ?case
  proof (cases "v = 0")
    case True
    with less.prems show ?thesis by simp
  next
    case False
    obtain s1 where s1: "clean_virtine s v = Some s1" "dev_ok s1" "rq (fpga s1) = rq (fpga s)"
      using clean_virtine_ok [OF less.prems] .
    obtain w s2 where s2: "pop_rq s1 = Some (w, s2)" "dev_ok s2"
      "w \<noteq> 0 \<Longrightarrow> nonzero_slots (rq (fpga s2)) < nonzero_slots (rq (fpga s1))"
      using pop_rq_ok [OF s1(2)] by metis
    have step: "clean_loop s v = clean_loop s2 w"
      using False s1(1) s2(1) by (rule clean_loop_step)
    show ?thesis
    proof (cases "w = 0")
      case True
      with s2(2) step show ?thesis by simp
    next
      case False
      with s1(3) s2(3) have "nonzero_slots (rq (fpga s2)) < nonzero_slots (rq (fpga s))" by simp
      from less.hyps [OF this s2(2)] step show ?thesis by simp
    qed
  qed
qed

lemma flag_updates_ok [simp]:
  "dev_ok (set_processing s) = dev_ok s" "dev_wf (set_processing s) = dev_wf s"
  "dev_ok (clear_doorbell s) = dev_ok s" "dev_wf (clear_doorbell s) = dev_wf s"
  "dev_ok (reset_cleaned s) = dev_ok s" "dev_wf (reset_cleaned s) = dev_wf s"
  by (simp_all add: dev_ok_def dev_wf_def set_processing_def clear_doorbell_def reset_cleaned_def)

lemma call_ok [simp]: "dev_ok (call cs s) = dev_ok s" "dev_wf (call cs s) = dev_wf s"
  by (simp_all add: dev_ok_def dev_wf_def)

lemma clean_pass_returns:
  assumes "dev_ok s"
  shows "\<exists>s'. clean_pass s = Some s' \<and> dev_ok s'"
proof -
  from assms have "dev_ok (clear_doorbell (set_processing s))" by simp
  then obtain v s1 where s1: "pop_rq (clear_doorbell (set_processing s)) = Some (v, s1)" "dev_ok s1"
    by (rule pop_rq_ok)
  from clean_loop_returns [OF s1(2), of v] s1(1) show ?thesis
    by (auto simp: clean_pass_def)
qed


subsection \<open>The card, abstractly\<close>

text \<open>
  What the device promises, on lists: addresses wait in \<open>ready\<close>, a pass moves them one by one
  to \<open>complete\<close> (dropping those for which the completion queue has no room), issues one DMA
  copy of the snapshot per address, and raises an interrupt whenever \<open>batch\<close> of them have
  been cleaned since the last one.
\<close>

record card =
  ready :: "hwaddr list"
  complete :: "hwaddr list"
  processing :: bool
  bell :: bool
  batch :: u32
  since_irq :: u32
  snap_size :: u64
  snap_addr :: u64
  log :: "qemu_call list"

definition abs_card :: "qemu_state \<Rightarrow> card" where
  "abs_card s = \<lparr>ready = rq_list s, complete = cq_list s,
     processing = is_card_processing (fpga s), bell = doorbell (fpga s),
     batch = batch_factor (fpga s), since_irq = num_virtines_cleaned_already (fpga s),
     snap_size = snapshot_size (fpga s), snap_addr = snapshot_addr (fpga s), log = calls s\<rparr>"

definition append_bounded :: "hwaddr list \<Rightarrow> hwaddr \<Rightarrow> hwaddr list" where
  "append_bounded xs x = (if length xs < NUM_POSSIBLE_VIRTINES then xs @ [x] else xs)"

definition spec_clean :: "hwaddr \<Rightarrow> card \<Rightarrow> card" where
  "spec_clean v c =
    (let due = (batch c \<le> since_irq c + 1) in
     c\<lparr>complete := append_bounded (complete c) v, processing := False,
       since_irq := (if due then 0 else since_irq c + 1),
       log := log c @ DmaWrite v (snap_addr c) (snap_size c) #
                (if due then [IothreadLock, MsiNotify 0, IothreadUnlock] else [])\<rparr>)"

definition spec_pass :: "card \<Rightarrow> card" where
  "spec_pass c =
    (let c' = fold spec_clean (ready c) (c\<lparr>processing := True, bell := False, ready := []\<rparr>)
     in c'\<lparr>log := log c' @ [MutexUnlock]\<rparr>)"

lemma abs_card_clean_virtine:
  assumes "dev_wf s" "v \<noteq> 0"
  obtains s' where "clean_virtine s v = Some s'" "dev_wf s'" "rq (fpga s') = rq (fpga s)"
    "abs_card s' = spec_clean v (abs_card s)"
proof -
  from assms have rq: "ring_wf (rq (fpga s))" and cq: "ring_wf (cq (fpga s))"
    by (auto simp: dev_wf_def)
  obtain r q where q: "insert_tail (cq (fpga s)) v = Some (r, q)" "ring_wf q"
    "ring_list q = (if length (cq_list s) < NUM_POSSIBLE_VIRTINES
                    then cq_list s @ [v] else cq_list s)"
    using ring_fifo.insE [OF cq assms(2)] .
  have "ring_ok (rq (fpga s))" "ring_ok q" using rq q(2) by (simp_all add: ring_wf_def)
  from clean_virtine_eq [OF this(1) q(1) this(2)] show ?thesis
    by (rule that) (use rq q in \<open>auto simp: dev_wf_def abs_card_def spec_clean_def Let_def
        virtine_cleaned_def irq_due_def append_bounded_def\<close>)
qed

lemma abs_card_pop_rq:
  assumes "dev_wf s"
  obtains s' where
    "pop_rq s = Some (if rq_list s = [] then 0 else hd (rq_list s), s')" "dev_wf s'"
    "abs_card s' = (abs_card s)\<lparr>ready := tl (rq_list s)\<rparr>"
proof -
  from assms have rq: "ring_wf (rq (fpga s))" and cq: "ring_wf (cq (fpga s))"
    by (auto simp: dev_wf_def)
  obtain q where q: "pop_head (rq (fpga s)) = Some (if rq_list s = [] then 0 else hd (rq_list s), q)"
    "ring_wf q" "ring_list q = tl (rq_list s)"
    using ring_fifo.popE [OF rq] .
  from q(1) have "pop_rq s = Some (if rq_list s = [] then 0 else hd (rq_list s), set_rq q s)"
    by (simp add: pop_rq_def)
  then show ?thesis
    by (rule that) (use q cq in \<open>auto simp: dev_wf_def abs_card_def\<close>)
qed

lemma ready_spec_clean [simp]: "ready (spec_clean v c) = ready c"
  by (simp add: spec_clean_def Let_def)

lemma spec_clean_ready_update [simp]:
  "spec_clean v (c\<lparr>ready := xs\<rparr>) = (spec_clean v c)\<lparr>ready := xs\<rparr>"
  by (simp add: spec_clean_def Let_def)

lemma fold_spec_clean_ready_update [simp]:
  "fold spec_clean vs (c\<lparr>ready := xs\<rparr>) = (fold spec_clean vs c)\<lparr>ready := xs\<rparr>"
  by (induction vs arbitrary: c) simp_all

lemma clean_loop_spec:
  assumes "dev_wf s" "v \<noteq> 0"
  shows "\<exists>s'. clean_loop s v = Some s' \<and> dev_wf s' \<and>
    abs_card s' = (fold spec_clean (v # rq_list s) (abs_card s))\<lparr>ready := []\<rparr>"
  using assms
proof (induction "rq_list s" arbitrary: s v)
  case Nil
  obtain s1 where s1: "clean_virtine s v = Some s1" "dev_wf s1" "rq (fpga s1) = rq (fpga s)"
    "abs_card s1 = spec_clean v (abs_card s)"
    using abs_card_clean_virtine [OF Nil.prems] .
  obtain s2 where s2: "pop_rq s1 = Some (0, s2)" "dev_wf s2"
    "abs_card s2 = (abs_card s1)\<lparr>ready := []\<rparr>"
    using abs_card_pop_rq [OF s1(2)] s1(3) Nil.hyps by auto
  show ?case
    using clean_loop_step [OF Nil.prems(2) s1(1) s2(1)] s2 s1(4) Nil.hyps by auto
next
  case (Cons x xs)
  obtain s1 where s1: "clean_virtine s v = Some s1" "dev_wf s1" "rq (fpga s1) = rq (fpga s)"
    "abs_card s1 = spec_clean v (abs_card s)"
    using abs_card_clean_virtine [OF Cons.prems] .
  have r1: "rq_list s1 = x # xs" using s1(3) Cons.hyps(2) by simp
  obtain s2 where "pop_rq s1 = Some (if rq_list s1 = [] then 0 else hd (rq_list s1), s2)"
    "dev_wf s2" "abs_card s2 = (abs_card s1)\<lparr>ready := tl (rq_list s1)\<rparr>"
    using abs_card_pop_rq [OF s1(2)] .
  with r1 have s2: "pop_rq s1 = Some (x, s2)" "dev_wf s2"
    "abs_card s2 = (abs_card s1)\<lparr>ready := xs\<rparr>"
    by simp_all
  have "rq_list s2 = xs" using s2(3) by (simp add: abs_card_def)
  have "x \<noteq> 0"
    using ring_fifo.no_null Cons.hyps(2) Cons.prems(1) unfolding dev_wf_def
    by (metis list.set_intros(1))
  from Cons.hyps(1) [OF \<open>rq_list s2 = xs\<close> [symmetric] s2(2) this] obtain s' where
    s': "clean_loop s2 x = Some s'" "dev_wf s'"
      "abs_card s' = (fold spec_clean (x # xs) (abs_card s2))\<lparr>ready := []\<rparr>"
    unfolding \<open>rq_list s2 = xs\<close> by blast
  have "clean_loop s v = Some s'"
    using clean_loop_step [OF Cons.prems(2) s1(1) s2(1)] s'(1) by simp
  moreover have "abs_card s' = (fold spec_clean (v # rq_list s) (abs_card s))\<lparr>ready := []\<rparr>"
    unfolding s'(3) s2(3) s1(4) Cons.hyps(2) [symmetric] by simp
  ultimately show ?case using s'(2) by blast
qed

lemma clean_pass_spec:
  assumes "dev_wf s"
  shows "\<exists>s'. clean_pass s = Some s' \<and> dev_wf s' \<and> abs_card s' = spec_pass (abs_card s)"
proof -
  let ?s0 = "clear_doorbell (set_processing s)"
  have wf0: "dev_wf ?s0" and list0: "rq_list ?s0 = rq_list s"
    and abs0: "abs_card ?s0 = (abs_card s)\<lparr>processing := True, bell := False\<rparr>"
    using assms by (auto simp: set_processing_def clear_doorbell_def dev_wf_def abs_card_def)
  obtain s1 where s1: "pop_rq ?s0 = Some (if rq_list s = [] then 0 else hd (rq_list s), s1)"
    "dev_wf s1" "abs_card s1 = (abs_card ?s0)\<lparr>ready := tl (rq_list s)\<rparr>"
    using abs_card_pop_rq [OF wf0] unfolding list0 .
  have ready: "ready (abs_card s) = rq_list s" by (simp add: abs_card_def)
  have call: "abs_card (call cs u) = (abs_card u)\<lparr>log := log (abs_card u) @ cs\<rparr>" for cs u
    by (simp add: abs_card_def)
  show ?thesis
  proof (cases "rq_list s")
    case Nil
    with s1 abs0 ready show ?thesis
      by (auto simp: clean_pass_def spec_pass_def Let_def call)
  next
    case (Cons x xs)
    then have "x \<noteq> 0"
      using ring_fifo.no_null assms unfolding dev_wf_def by (metis list.set_intros(1))
    from clean_loop_spec [OF s1(2) this] obtain s2 where
      s2: "clean_loop s1 x = Some s2" "dev_wf s2"
      "abs_card s2 = (fold spec_clean (x # rq_list s1) (abs_card s1))\<lparr>ready := []\<rparr>" by blast
    have "rq_list s1 = xs" using s1(3) Cons by (simp add: abs_card_def)
    with s1 s2 abs0 ready Cons show ?thesis
      by (auto simp: clean_pass_def spec_pass_def Let_def call)
  qed
qed


subsection \<open>Closed forms of the abstract pass\<close>

definition dma_targets :: "qemu_call list \<Rightarrow> (hwaddr \<times> u64 \<times> u64) list" where
  "dma_targets cs = List.map_filter (\<lambda>c. case c of DmaWrite v a n \<Rightarrow> Some (v, a, n) | _ \<Rightarrow> None) cs"

lemma dma_targets_simps [simp]:
  "dma_targets [] = []"
  "dma_targets (DmaWrite v a n # cs) = (v, a, n) # dma_targets cs"
  "dma_targets (cs @ ds) = dma_targets cs @ dma_targets ds"
  by (simp_all add: dma_targets_def List.map_filter_def)

lemma dma_targets_skip [simp]:
  "(\<And>v a n. c \<noteq> DmaWrite v a n) \<Longrightarrow> dma_targets (c # cs) = dma_targets cs"
  by (cases c) (simp_all add: dma_targets_def List.map_filter_def)

lemma spec_clean_frame [simp]:
  "batch (spec_clean v c) = batch c" "bell (spec_clean v c) = bell c"
  "snap_size (spec_clean v c) = snap_size c" "snap_addr (spec_clean v c) = snap_addr c"
  "processing (spec_clean v c) = False"
  "complete (spec_clean v c) = append_bounded (complete c) v"
  "since_irq (spec_clean v c) = (if batch c \<le> since_irq c + 1 then 0 else since_irq c + 1)"
  by (simp_all add: spec_clean_def Let_def)

lemma fold_spec_clean_frame [simp]:
  "batch (fold spec_clean vs c) = batch c" "bell (fold spec_clean vs c) = bell c"
  "snap_size (fold spec_clean vs c) = snap_size c" "snap_addr (fold spec_clean vs c) = snap_addr c"
  "ready (fold spec_clean vs c) = ready c"
  "processing (fold spec_clean vs c) = (processing c \<and> vs = [])"
  by (induction vs arbitrary: c) simp_all

lemma fold_spec_clean_complete:
  "length (complete c) \<le> NUM_POSSIBLE_VIRTINES \<Longrightarrow>
   complete (fold spec_clean vs c) =
     complete c @ take (NUM_POSSIBLE_VIRTINES - length (complete c)) vs"
  by (induction vs arbitrary: c) (auto simp: append_bounded_def take_Cons')

definition new_calls :: "card \<Rightarrow> card \<Rightarrow> qemu_call list" where
  "new_calls c c' = drop (length (log c)) (log c')"

lemma fold_spec_clean_log:
  "\<exists>tr. log (fold spec_clean vs c) = log c @ tr \<and>
    dma_targets tr = map (\<lambda>v. (v, snap_addr c, snap_size c)) vs"
proof (induction vs arbitrary: c)
  case (Cons v vs)
  from Cons [of "spec_clean v c"] obtain tr where
    tr: "log (fold spec_clean vs (spec_clean v c)) = log (spec_clean v c) @ tr"
      "dma_targets tr = map (\<lambda>v. (v, snap_addr c, snap_size c)) vs" by auto
  let ?l = "DmaWrite v (snap_addr c) (snap_size c) #
    (if batch c \<le> since_irq c + 1 then [IothreadLock, MsiNotify 0, IothreadUnlock] else [])"
  have "log (spec_clean v c) = log c @ ?l" by (simp add: spec_clean_def Let_def)
  with tr show ?case by (intro exI [of _ "?l @ tr"]) simp
qed simp

text \<open>
  Interrupt coalescing: with \<open>k\<close> the batch factor and \<open>c < k\<close> addresses cleaned since the last
  interrupt, \<open>n\<close> further ones raise \<open>(c + n) div k\<close> interrupts and leave \<open>(c + n) mod k\<close>.
\<close>

lemma fold_spec_clean_irqs:
  assumes "since_irq c < batch c"
  shows "since_irq (fold spec_clean vs c) < batch c \<and>
    unat (since_irq (fold spec_clean vs c)) =
      (unat (since_irq c) + length vs) mod unat (batch c) \<and>
    count_list (log (fold spec_clean vs c)) (MsiNotify 0) =
      count_list (log c) (MsiNotify 0) + (unat (since_irq c) + length vs) div unat (batch c)"
  using assms
proof (induction vs arbitrary: c)
  case Nil
  then show ?case by (simp add: word_less_nat_alt)
next
  case (Cons v vs)
  let ?d = "spec_clean v c"
  let ?k = "unat (batch c)"
  let ?i = "unat (since_irq c)"
  have lt: "?i < ?k" using Cons.prems by (simp add: word_less_nat_alt)
  have "unat (since_irq c) + 1 < 2 ^ 32"
    using lt unsigned_less [of "batch c", where 'a = nat] by simp
  then have suc: "unat (since_irq c + 1) = Suc ?i"
    by (simp add: unat_word_ariths)
  have due: "batch c \<le> since_irq c + 1 \<longleftrightarrow> Suc ?i = ?k"
    using lt suc by (auto simp: word_le_nat_alt)
  have "batch c \<noteq> 0" using lt by auto
  then have less: "since_irq ?d < batch ?d"
    using due lt suc by (auto simp: word_less_nat_alt word_neq_0_conv)
  have logs: "count_list (log ?d) (MsiNotify 0) =
      count_list (log c) (MsiNotify 0) + (if Suc ?i = ?k then 1 else 0)"
    by (simp add: spec_clean_def Let_def due)
  show ?case
  proof (cases "Suc ?i = ?k")
    case True
    then have "unat (since_irq ?d) = 0" using due by simp
    moreover have e: "Suc (?i + length vs) = ?k + length vs" using True by simp
    moreover have "(?k + length vs) div ?k = Suc (length vs div ?k)"
      using div_add_self1 [of ?k "length vs"] lt by (cases "?k = 0") simp_all
    ultimately show ?thesis
      using Cons.IH [OF less] logs True unfolding list.size add_0_right add_Suc_right e by simp
  next
    case False
    then have "unat (since_irq ?d) = Suc ?i" using due suc by simp
    with Cons.IH [OF less] logs False show ?thesis by simp
  qed
qed


lemma clean_pass_moves:
  assumes "dev_wf s"
  shows "\<exists>s' tr. clean_pass s = Some s' \<and> rq_list s' = [] \<and>
    cq_list s' = cq_list s @ take (NUM_POSSIBLE_VIRTINES - length (cq_list s)) (rq_list s) \<and>
    calls s' = calls s @ tr \<and>
    dma_targets tr = map (\<lambda>v. (v, snapshot_addr (fpga s), snapshot_size (fpga s))) (rq_list s)"
proof -
  obtain s' where s': "clean_pass s = Some s'" "abs_card s' = spec_pass (abs_card s)"
    using clean_pass_spec [OF assms] by blast
  let ?c = "(abs_card s)\<lparr>processing := True, bell := False, ready := []\<rparr>"
  have p: "spec_pass (abs_card s) = (fold spec_clean (rq_list s) ?c)
      \<lparr>log := log (fold spec_clean (rq_list s) ?c) @ [MutexUnlock]\<rparr>"
    by (simp add: spec_pass_def Let_def abs_card_def)
  obtain tr where "log (fold spec_clean (rq_list s) ?c) = log ?c @ tr"
    "dma_targets tr = map (\<lambda>v. (v, snap_addr ?c, snap_size ?c)) (rq_list s)"
    using fold_spec_clean_log by blast
  then have tr: "log (spec_pass (abs_card s)) = calls s @ (tr @ [MutexUnlock])"
    "dma_targets (tr @ [MutexUnlock]) =
       map (\<lambda>v. (v, snapshot_addr (fpga s), snapshot_size (fpga s))) (rq_list s)"
    unfolding p by (simp_all add: abs_card_def)
  have "length (complete ?c) \<le> NUM_POSSIBLE_VIRTINES"
    using assms ring_fifo.bounded by (simp add: abs_card_def dev_wf_def)
  from fold_spec_clean_complete [OF this, of "rq_list s"]
  have "complete (spec_pass (abs_card s)) =
      cq_list s @ take (NUM_POSSIBLE_VIRTINES - length (cq_list s)) (rq_list s)"
    unfolding p by (simp add: abs_card_def)
  moreover have "ready (spec_pass (abs_card s)) = []" unfolding p by simp
  moreover have "rq_list s' = ready (abs_card s')" "cq_list s' = complete (abs_card s')"
    "calls s' = log (abs_card s')"
    by (simp_all add: abs_card_def)
  ultimately have "rq_list s' = []" "calls s' = calls s @ (tr @ [MutexUnlock])"
    "cq_list s' = cq_list s @ take (NUM_POSSIBLE_VIRTINES - length (cq_list s)) (rq_list s)"
    using s'(2) tr(1) by simp_all
  with s'(1) tr(2) show ?thesis by blast
qed

subsection \<open>Properties of the pass\<close>

text \<open>
  C1. Refinement: on a well-formed device a clean-up pass returns, stays well formed and does to the
  queues, the flags, the counter and the call log exactly what the abstract card does.
\<close>

theorem clean_pass_refines:
  assumes "dev_wf s"
  shows "\<exists>s'. clean_pass s = Some s' \<and> dev_wf s' \<and> abs_card s' = spec_pass (abs_card s)"
  using assms by (rule clean_pass_spec)

theorem clean_pass_refines_witness:
  "\<exists>s'. clean_pass example_device = Some s' \<and> abs_card s' = spec_pass (abs_card example_device)"
  using clean_pass_refines [OF example_device_wf(1)] by blast

text \<open>
  C25. Termination for any queue contents: as long as the pointers point to slots, the clean-up loop
  returns and stays inside the buffers, also when the guest has queued zeros or the queues disagree
  with their full/empty convention; each round leaves one non-zero slot fewer in the ready queue.
\<close>

theorem clean_pass_terminates:
  assumes "dev_ok s"
  shows "\<exists>s'. clean_pass s = Some s' \<and> dev_ok s'"
  using assms by (rule clean_pass_returns)

theorem clean_pass_terminates_witness:
  "\<exists>s'. clean_pass example_device = Some s' \<and> dev_ok s'"
  by (rule clean_pass_terminates [OF dev_wf_ok [OF example_device_wf(1)]])

text \<open>
  C2. What a pass does to the addresses: the snapshot is copied over every waiting virtine, once each
  and in the order they were queued; the ready queue ends empty; and the completed queue is extended
  by as many of them as it has room for.  The others are restored but never reported: they are lost.
\<close>

theorem clean_pass_effect:
  assumes "dev_wf s"
  shows "\<exists>s' tr. clean_pass s = Some s' \<and> rq_list s' = [] \<and>
    cq_list s' = cq_list s @ take (NUM_POSSIBLE_VIRTINES - length (cq_list s)) (rq_list s) \<and>
    calls s' = calls s @ tr \<and>
    dma_targets tr = map (\<lambda>v. (v, snapshot_addr (fpga s), snapshot_size (fpga s))) (rq_list s)"
  using assms by (rule clean_pass_moves)

theorem clean_pass_effect_witness:
  "\<exists>s s' tr. rq_list s = [5, 7] \<and> clean_pass s = Some s' \<and> cq_list s' = [5, 7] \<and>
    calls s' = calls s @ tr \<and> dma_targets tr = [(5, 0x7000, 8), (7, 0x7000, 8)]"
proof -
  obtain s where s: "dev_wf s" "rq_list s = [5, 7]" "cq_list s = []"
    "snapshot_size (fpga s) = 8" "snapshot_addr (fpga s) = 0x7000"
    using loaded_device [of "[5, 7]"] by (auto simp: NUM_POSSIBLE_VIRTINES_def)
  from clean_pass_effect [OF s(1)] s show ?thesis
    by (auto simp: NUM_POSSIBLE_VIRTINES_def)
qed

text \<open>
  C24. Interrupt coalescing: with batch factor \<open>k\<close> and \<open>c < k\<close> virtines cleaned since the last
  interrupt, a pass over \<open>n\<close> virtines raises \<open>(c + n) div k\<close> interrupts and leaves
  \<open>(c + n) mod k\<close> counted; that remainder stays unannounced until further work arrives.
\<close>

theorem clean_pass_interrupts:
  assumes "dev_wf s" "num_virtines_cleaned_already (fpga s) < batch_factor (fpga s)"
  shows "\<exists>s'. clean_pass s = Some s' \<and> batch_factor (fpga s') = batch_factor (fpga s) \<and>
    unat (num_virtines_cleaned_already (fpga s')) =
      (unat (num_virtines_cleaned_already (fpga s)) + length (rq_list s))
        mod unat (batch_factor (fpga s)) \<and>
    count_list (calls s') (MsiNotify 0) = count_list (calls s) (MsiNotify 0) +
      (unat (num_virtines_cleaned_already (fpga s)) + length (rq_list s))
        div unat (batch_factor (fpga s))"
proof -
  obtain s' where s': "clean_pass s = Some s'" "abs_card s' = spec_pass (abs_card s)"
    using clean_pass_spec [OF assms(1)] by blast
  let ?c = "(abs_card s)\<lparr>processing := True, bell := False, ready := []\<rparr>"
  let ?d = "fold spec_clean (rq_list s) ?c"
  have p: "abs_card s' = ?d\<lparr>log := log ?d @ [MutexUnlock]\<rparr>"
    using s'(2) by (simp add: spec_pass_def Let_def abs_card_def)
  have f: "since_irq ?c = num_virtines_cleaned_already (fpga s)" "batch ?c = batch_factor (fpga s)"
    "log ?c = calls s"
    by (simp_all add: abs_card_def)
  have "num_virtines_cleaned_already (fpga s') = since_irq (abs_card s')"
    "batch_factor (fpga s') = batch (abs_card s')" "calls s' = log (abs_card s')"
    by (simp_all add: abs_card_def)
  with p have "num_virtines_cleaned_already (fpga s') = since_irq ?d"
    "batch_factor (fpga s') = batch ?d" "calls s' = log ?d @ [MutexUnlock]"
    by simp_all
  moreover have "since_irq ?c < batch ?c" using assms(2) f by simp
  ultimately show ?thesis
    using fold_spec_clean_irqs [of ?c "rq_list s"] s'(1) f by simp
qed

theorem clean_pass_interrupts_witness:
  "\<exists>s s'. rq_list s = [5, 7] \<and> clean_pass s = Some s' \<and>
    count_list (calls s') (MsiNotify 0) = count_list (calls s) (MsiNotify 0) + 2"
proof -
  obtain s where s: "dev_wf s" "rq_list s = [5, 7]" "batch_factor (fpga s) = 1"
    "num_virtines_cleaned_already (fpga s) = 0"
    using loaded_device [of "[5, 7]"] by (auto simp: NUM_POSSIBLE_VIRTINES_def)
  then have "num_virtines_cleaned_already (fpga s) < batch_factor (fpga s)" by simp
  from clean_pass_interrupts [OF s(1) this] s show ?thesis by auto
qed

text \<open>
  C36. The processing flag after a pass: \<open>is_card_processing\<close> is cleared inside the loop, after the
  first virtine, and nowhere else; so it reads as idle while the rest of a batch is still being
  restored, and it stays set for good when the doorbell was rung with nothing queued.
\<close>

theorem processing_flag_after_pass:
  assumes "dev_wf s"
  shows "\<exists>s'. clean_pass s = Some s' \<and> (is_card_processing (fpga s') \<longleftrightarrow> rq_list s = []) \<and>
    \<not> doorbell (fpga s')"
proof -
  obtain s' where s': "clean_pass s = Some s'" "abs_card s' = spec_pass (abs_card s)"
    using clean_pass_spec [OF assms] by blast
  have "processing (abs_card s') \<longleftrightarrow> rq_list s = []" "bell (abs_card s') = False"
    unfolding s'(2) by (simp_all add: spec_pass_def Let_def abs_card_def)
  then have "is_card_processing (fpga s') \<longleftrightarrow> rq_list s = []" "\<not> doorbell (fpga s')"
    by (simp_all add: abs_card_def)
  with s'(1) show ?thesis by blast
qed

theorem processing_flag_after_pass_witness:
  "\<exists>s'. clean_pass example_device = Some s' \<and> is_card_processing (fpga s')"
  using processing_flag_after_pass [OF example_device_wf(1)] example_device_wf(2) by auto


text \<open>
  C37. A queued zero stops the co-processor early: if the guest queues the address 0 before an address
  \<open>v\<close>, the pass the doorbell triggers copies nothing, clears the doorbell and leaves \<open>v\<close>
  waiting and the card marked as processing.
\<close>

theorem zero_address_stops_pass:
  assumes "dev_wf s" "rq_list s = []" "v \<noteq> 0"
  shows "\<exists>r1 q1 r2 q2 s'. insert_tail (rq (fpga s)) 0 = Some (r1, q1) \<and>
    insert_tail q1 v = Some (r2, q2) \<and> clean_pass (set_rq q2 s) = Some s' \<and>
    calls s' = calls s @ [MutexUnlock] \<and> rq_list s' = [v] \<and> \<not> doorbell (fpga s') \<and>
    is_card_processing (fpga s')"
proof -
  have "ring_wf (rq (fpga s))" using assms(1) by (simp add: dev_wf_def)
  from this assms(2,3) obtain r1 q1 r2 q2 q3 where
    q: "insert_tail (rq (fpga s)) 0 = Some (r1, q1)" "insert_tail q1 v = Some (r2, q2)"
      "ring_ok q2" "pop_head q2 = Some (0, q3)" "ring_wf q3" "ring_list q3 = [v]"
    by (rule zero_before)
  have "pop_rq (clear_doorbell (set_processing (set_rq q2 s))) =
      Some (0, set_rq q3 (clear_doorbell (set_processing (set_rq q2 s))))"
    using q(4) by (simp add: pop_rq_def set_processing_def clear_doorbell_def)
  then have "clean_pass (set_rq q2 s) =
      Some (call [MutexUnlock] (set_rq q3 (clear_doorbell (set_processing (set_rq q2 s)))))"
    by (simp add: clean_pass_def)
  with q show ?thesis
    by (auto simp: set_processing_def clear_doorbell_def)
qed

theorem zero_address_stops_pass_witness:
  "\<exists>r1 q1 r2 q2 s'. insert_tail (rq (fpga example_device)) 0 = Some (r1, q1) \<and>
    insert_tail q1 9 = Some (r2, q2) \<and> clean_pass (set_rq q2 example_device) = Some s' \<and>
    rq_list s' = [9]"
  using zero_address_stops_pass [OF example_device_wf(1,2), of 9] by auto

end
