(* ===== verification/Interleaving.thy ===== *)
theory Interleaving
  imports Cleanup
begin

section \<open>The co-processor thread against the MMIO handlers\<close>

text \<open>
  Two threads of QEMU share the device: the clean-up thread (\<open>Card\<close>), whose program points are
  those of \<open>virtine_fpga_virtine_cleanup\<close>, and the thread that runs the MMIO handlers and
  \<open>virtine_fpga_uninit\<close> (\<open>Cpu\<close>), which QEMU enters with its iothread lock held, one at a time.
  A step is one lock operation, one atomic access or one stretch of code run under the
  processing lock.  A condition variable keeps no memory: a signal wakes the thread only if it
  already sleeps.  The parameter \<open>spur\<close> says whether a sleeping thread may also wake up
  unasked, as POSIX allows; invariants are proved for both values.
\<close>

subsection \<open>Program points and steps\<close>

datatype thread_id = Card | Cpu

datatype card_pc =
    AtLock | AtGuard | AtWait | Asleep | Woken | AtStop | AtClear | AtPop | AtTest hwaddr
  | AtThreshold | AtIrq | AtNotify | AtUnlock | Gone

datatype cpu_pc =
    Idle | Handling mmio_op | Locked mmio_op | Signalling | Leaving
  | StopLock | StopSignal | StopJoin | Stopped

record world =
  st :: qemu_state
  card :: card_pc
  cpu :: cpu_pc
  lock :: "thread_id option"     \<comment> \<open>\<open>processing_lock\<close>\<close>
  bql :: "thread_id option"      \<comment> \<open>QEMU's iothread lock\<close>

definition needs_lock :: "mmio_op \<Rightarrow> bool" where
  "needs_lock op \<longleftrightarrow> (case op of
     ReadReg a \<Rightarrow> a = CQ_HEAD_OFFSET_REG
   | WriteReg a v \<Rightarrow> a = RQ_TAIL_OFFSET_REG + 4)"

definition rings :: "mmio_op \<Rightarrow> bool" where
  "rings op \<longleftrightarrow> (case op of ReadReg a \<Rightarrow> False | WriteReg a v \<Rightarrow> a = DOORBELL_REG)"

definition set_stopping :: "qemu_state \<Rightarrow> qemu_state" where
  "set_stopping s = s\<lparr>fpga := (fpga s)\<lparr>stopping := True\<rparr>\<rparr>"

text \<open>What a signal on the condition variable does to the clean-up thread.\<close>

definition signalled :: "card_pc \<Rightarrow> card_pc" where
  "signalled p = (if p = Asleep then Woken else p)"

inductive step :: "bool \<Rightarrow> world \<Rightarrow> world \<Rightarrow> bool" for spur where
  card_lock: "card w = AtLock \<Longrightarrow> lock w = None \<Longrightarrow>
    step spur w (w\<lparr>card := AtGuard, lock := Some Card, st := call [MutexLock] (st w)\<rparr>)"
| card_guard_wait: "card w = AtGuard \<Longrightarrow> \<not> doorbell (fpga (st w)) \<Longrightarrow> \<not> stopping (fpga (st w)) \<Longrightarrow>
    step spur w (w\<lparr>card := AtWait\<rparr>)"
| card_guard_go: "card w = AtGuard \<Longrightarrow> doorbell (fpga (st w)) \<or> stopping (fpga (st w)) \<Longrightarrow>
    step spur w (w\<lparr>card := AtStop\<rparr>)"
| card_wait: "card w = AtWait \<Longrightarrow> step spur w (w\<lparr>card := Asleep, lock := None\<rparr>)"
| card_spurious: "spur \<Longrightarrow> card w = Asleep \<Longrightarrow> step spur w (w\<lparr>card := Woken\<rparr>)"
| card_wake: "card w = Woken \<Longrightarrow> lock w = None \<Longrightarrow>
    step spur w (w\<lparr>card := AtGuard, lock := Some Card\<rparr>)"
| card_exit: "card w = AtStop \<Longrightarrow> stopping (fpga (st w)) \<Longrightarrow>
    step spur w (w\<lparr>card := Gone, lock := None, st := call [MutexUnlock] (st w)\<rparr>)"
| card_begin: "card w = AtStop \<Longrightarrow> \<not> stopping (fpga (st w)) \<Longrightarrow>
    step spur w (w\<lparr>card := AtClear, st := set_processing (st w)\<rparr>)"
| card_clear: "card w = AtClear \<Longrightarrow>
    step spur w (w\<lparr>card := AtPop, st := clear_doorbell (st w)\<rparr>)"
| card_pop: "card w = AtPop \<Longrightarrow> pop_rq (st w) = Some (v, s) \<Longrightarrow>
    step spur w (w\<lparr>card := AtTest v, st := s\<rparr>)"
| card_done: "card w = AtTest 0 \<Longrightarrow> step spur w (w\<lparr>card := AtUnlock\<rparr>)"
| card_restore: "card w = AtTest v \<Longrightarrow> v \<noteq> 0 \<Longrightarrow> restore_virtine (st w) v = Some s \<Longrightarrow>
    step spur w (w\<lparr>card := AtThreshold, st := s\<rparr>)"
| card_below: "card w = AtThreshold \<Longrightarrow> \<not> batch_reached (st w) \<Longrightarrow> step spur w (w\<lparr>card := AtPop\<rparr>)"
| card_reached: "card w = AtThreshold \<Longrightarrow> batch_reached (st w) \<Longrightarrow> step spur w (w\<lparr>card := AtIrq\<rparr>)"
| card_bql: "card w = AtIrq \<Longrightarrow> bql w = None \<Longrightarrow>
    step spur w (w\<lparr>card := AtNotify, bql := Some Card, st := call [IothreadLock] (st w)\<rparr>)"
| card_notify: "card w = AtNotify \<Longrightarrow>
    step spur w (w\<lparr>card := AtPop, bql := None,
      st := reset_cleaned (call [IothreadUnlock] (call [MsiNotify 0] (st w)))\<rparr>)"
| card_unlock: "card w = AtUnlock \<Longrightarrow>
    step spur w (w\<lparr>card := AtLock, lock := None, st := call [MutexUnlock] (st w)\<rparr>)"
| cpu_enter: "cpu w = Idle \<Longrightarrow> bql w = None \<Longrightarrow>
    step spur w (w\<lparr>cpu := Handling op, bql := Some Cpu\<rparr>)"
| cpu_lock: "cpu w = Handling op \<Longrightarrow> needs_lock op \<Longrightarrow> lock w = None \<Longrightarrow>
    step spur w (w\<lparr>cpu := Locked op, lock := Some Cpu\<rparr>)"
| cpu_locked: "cpu w = Locked op \<Longrightarrow> mmio_step (st w) op = Some s \<Longrightarrow>
    step spur w (w\<lparr>cpu := Leaving, lock := None, st := s\<rparr>)"
| cpu_plain: "cpu w = Handling op \<Longrightarrow> \<not> needs_lock op \<Longrightarrow> mmio_step (st w) op = Some s \<Longrightarrow>
    step spur w (w\<lparr>cpu := (if rings op then Signalling else Leaving), st := s\<rparr>)"
| cpu_signal: "cpu w = Signalling \<Longrightarrow>
    step spur w (w\<lparr>cpu := Leaving, card := signalled (card w)\<rparr>)"
| cpu_leave: "cpu w = Leaving \<Longrightarrow> step spur w (w\<lparr>cpu := Idle, bql := None\<rparr>)"
| cpu_uninit: "cpu w = Idle \<Longrightarrow> bql w = None \<Longrightarrow>
    step spur w (w\<lparr>cpu := StopLock, bql := Some Cpu, st := call [MsiUninit] (st w)\<rparr>)"
| cpu_stop: "cpu w = StopLock \<Longrightarrow> lock w = None \<Longrightarrow>
    step spur w (w\<lparr>cpu := StopSignal,
      st := call [MutexUnlock] (set_stopping (call [MutexLock] (st w)))\<rparr>)"
| cpu_stop_signal: "cpu w = StopSignal \<Longrightarrow>
    step spur w (w\<lparr>cpu := StopJoin, card := signalled (card w), st := call [CondSignal] (st w)\<rparr>)"
| cpu_join: "cpu w = StopJoin \<Longrightarrow> card w = Gone \<Longrightarrow>
    step spur w (w\<lparr>cpu := Stopped, bql := None,
      st := call [ThreadJoin, CondDestroy, MutexDestroy, RegionUnref] (st w)\<rparr>)"

inductive_cases step_from: "step spur w w'"

definition start_world :: "qemu_state \<Rightarrow> world" where
  "start_world s = \<lparr>st = s, card = AtLock, cpu = Idle, lock = None, bql = None\<rparr>"

inductive reachable :: "bool \<Rightarrow> qemu_state \<Rightarrow> world \<Rightarrow> bool" for spur s where
  reach_start: "reachable spur s (start_world s)"
| reach_step: "reachable spur s w \<Longrightarrow> step spur w w' \<Longrightarrow> reachable spur s w'"


subsection \<open>What each step does to the device\<close>

definition virtine_restored :: "qemu_state \<Rightarrow> hwaddr \<Rightarrow> virtine_ring_queue \<Rightarrow> qemu_state" where
  "virtine_restored s v q = s\<lparr>
     fpga := (fpga s)\<lparr>num_virtines_cleaned_already := num_virtines_cleaned_already (fpga s) + 1,
       cq := q, is_card_processing := False\<rparr>,
     calls := calls s @ [DmaWrite v (snapshot_addr (fpga s)) (snapshot_size (fpga s))]\<rparr>"

lemma restore_virtine_eq:
  assumes "ring_ok (rq (fpga s))" "insert_tail (cq (fpga s)) v = Some (r, q)" "ring_ok q"
  shows "restore_virtine s v = Some (virtine_restored s v q)"
  using ring_ok_derefs [OF assms(1)] ring_ok_derefs [OF assms(3)] assms(2)
  by (simp add: restore_virtine_def Let_def virtine_restored_def call_def set_cq_def)

lemma virtine_restored_simps [simp]:
  "rq (fpga (virtine_restored s v q)) = rq (fpga s)" "cq (fpga (virtine_restored s v q)) = q"
  "stopping (fpga (virtine_restored s v q)) = stopping (fpga s)"
  "calls (virtine_restored s v q) =
     calls s @ [DmaWrite v (snapshot_addr (fpga s)) (snapshot_size (fpga s))]"
  "num_virtines_cleaned_already (fpga (virtine_restored s v q)) =
     num_virtines_cleaned_already (fpga s) + 1"
  "batch_factor (fpga (virtine_restored s v q)) = batch_factor (fpga s)"
  by (simp_all add: virtine_restored_def)

lemma flag_updates_simps [simp]:
  "rq (fpga (set_processing s)) = rq (fpga s)" "cq (fpga (set_processing s)) = cq (fpga s)"
  "rq (fpga (clear_doorbell s)) = rq (fpga s)" "cq (fpga (clear_doorbell s)) = cq (fpga s)"
  "rq (fpga (reset_cleaned s)) = rq (fpga s)" "cq (fpga (reset_cleaned s)) = cq (fpga s)"
  "rq (fpga (set_stopping s)) = rq (fpga s)" "cq (fpga (set_stopping s)) = cq (fpga s)"
  "stopping (fpga (set_processing s)) = stopping (fpga s)"
  "stopping (fpga (clear_doorbell s)) = stopping (fpga s)"
  "stopping (fpga (reset_cleaned s)) = stopping (fpga s)"
  "stopping (fpga (set_stopping s)) = True"
  "calls (set_processing s) = calls s" "calls (clear_doorbell s) = calls s"
  "calls (reset_cleaned s) = calls s" "calls (set_stopping s) = calls s"
  by (simp_all add: set_processing_def clear_doorbell_def reset_cleaned_def set_stopping_def)

subsection \<open>The invariants\<close>

text \<open>Who holds which lock, by program point.\<close>

fun card_holds :: "card_pc \<Rightarrow> bool" where
  "card_holds AtLock = False"
| "card_holds Asleep = False"
| "card_holds Woken = False"
| "card_holds Gone = False"
| "card_holds _ = True"

fun cpu_holds :: "cpu_pc \<Rightarrow> bool" where
  "cpu_holds (Locked op) = True"
| "cpu_holds _ = False"

fun cpu_active :: "cpu_pc \<Rightarrow> bool" where
  "cpu_active Idle = False"
| "cpu_active Stopped = False"
| "cpu_active _ = True"

lemma signalled_simps [simp]:
  "card_holds (signalled p) = card_holds p" "signalled p \<noteq> Asleep"
  "signalled p = AtNotify \<longleftrightarrow> p = AtNotify" "signalled p = AtWait \<longleftrightarrow> p = AtWait"
  "signalled p = AtTest v \<longleftrightarrow> p = AtTest v" "signalled p = AtPop \<longleftrightarrow> p = AtPop"
  "signalled p = Gone \<longleftrightarrow> p = Gone"
  by (auto simp: signalled_def)

definition lock_inv :: "world \<Rightarrow> bool" where
  "lock_inv w \<longleftrightarrow>
     (lock w = Some Card \<longleftrightarrow> card_holds (card w)) \<and> (lock w = Some Cpu \<longleftrightarrow> cpu_holds (cpu w)) \<and>
     (bql w = Some Card \<longleftrightarrow> card w = AtNotify) \<and> (bql w = Some Cpu \<longleftrightarrow> cpu_active (cpu w))"

definition stop_inv :: "world \<Rightarrow> bool" where
  "stop_inv w \<longleftrightarrow>
     (stopping (fpga (st w)) \<longrightarrow> card w \<noteq> AtWait) \<and>
     (stopping (fpga (st w)) \<longrightarrow> card w = Asleep \<longrightarrow> cpu w = StopSignal) \<and>
     (cpu w \<in> {StopSignal, StopJoin, Stopped} \<longrightarrow> stopping (fpga (st w))) \<and>
     (cpu w = Stopped \<longrightarrow> card w = Gone)"

definition restored_inv :: "qemu_state \<Rightarrow> bool" where
  "restored_inv s \<longleftrightarrow> ring_ok (rq (fpga s)) \<and> ring_wf (cq (fpga s)) \<and>
     set (cq_list s) \<subseteq> fst ` set (dma_targets (calls s))"

lemma lock_inv_step:
  assumes "step spur w w'" "lock_inv w"
  shows "lock_inv w'"
  using assms by (cases rule: step.cases) (auto simp: lock_inv_def)

text \<open>What an MMIO access by the guest does to the parts of the state the invariants mention.\<close>

lemma mmio_step_good:
  assumes "restored_inv s"
  shows "\<exists>s'. mmio_step s op = Some s' \<and> restored_inv s' \<and>
    stopping (fpga s') = stopping (fpga s)"
proof -
  from assms have rq: "ring_ok (rq (fpga s))" and cq: "ring_wf (cq (fpga s))"
    and dma: "set (cq_list s) \<subseteq> fst ` set (dma_targets (calls s))"
    by (simp_all add: restored_inv_def)
  have ok: "dev_ok s" using rq cq by (simp add: dev_ok_def ring_wf_def)
  show ?thesis
  proof (cases op)
    case (ReadReg a)
    consider (head) "a = CQ_HEAD_OFFSET_REG" | (head4) "a = CQ_HEAD_OFFSET_REG + 4"
      | (other) "a \<noteq> CQ_HEAD_OFFSET_REG" "a \<noteq> CQ_HEAD_OFFSET_REG + 4" by blast
    then show ?thesis
    proof cases
      case head
      obtain v q where q: "pop_head (cq (fpga s)) = Some (v, q)" "ring_wf q"
        "ring_list q = tl (cq_list s)"
        using ring_fifo.popE [OF cq] by metis
      have "set (tl (cq_list s)) \<subseteq> set (cq_list s)" by (cases "cq_list s") auto
      with q rq dma show ?thesis
        unfolding ReadReg head by (auto simp: dev_simps restored_inv_def)
    next
      case head4
      with assms show ?thesis unfolding ReadReg by (simp add: dev_simps restored_inv_def)
    next
      case other
      with mmio_read_frame [OF ok other, of 4] assms show ?thesis unfolding ReadReg by fastforce
    qed
  next
    case (WriteReg a v)
    consider (tail4) "a = RQ_TAIL_OFFSET_REG + 4"
      | (reg) "a \<in> {RQ_TAIL_OFFSET_REG, BATCH_FACTOR_REG, DOORBELL_REG,
          SNAPSHOT_SIZE_REG, SNAPSHOT_ADDR_REG, SNAPSHOT_ADDR_REG + 4}"
      | (other) "a \<notin> {RQ_TAIL_OFFSET_REG, RQ_TAIL_OFFSET_REG + 4, BATCH_FACTOR_REG,
          DOORBELL_REG, SNAPSHOT_SIZE_REG, SNAPSHOT_ADDR_REG, SNAPSHOT_ADDR_REG + 4}" by blast
    then show ?thesis
    proof cases
      case tail4
      from ring_safe.ins_safe [OF rq, of "push_bit 32 v OR split_write s"] obtain r q where
        "insert_tail (rq (fpga s)) (push_bit 32 v OR split_write s) = Some (r, q)" "ring_ok q"
        by blast
      with cq dma show ?thesis
        unfolding WriteReg tail4 by (simp add: dev_simps restored_inv_def Let_def)
    next
      case reg
      with assms show ?thesis unfolding WriteReg by (auto simp: dev_simps restored_inv_def)
    next
      case other
      from mmio_write_frame [OF other] assms show ?thesis unfolding WriteReg by simp
    qed
  qed
qed

lemma pop_rq_good:
  assumes "restored_inv s"
  shows "\<exists>v s'. pop_rq s = Some (v, s') \<and> restored_inv s' \<and> stopping (fpga s') = stopping (fpga s)"
proof -
  from assms have "ring_ok (rq (fpga s))" by (simp add: restored_inv_def)
  from ring_safe.pop_safe [OF this] obtain v q where
    "pop_head (rq (fpga s)) = Some (v, q)" "ring_ok q" by blast
  with assms show ?thesis by (simp add: pop_rq_def restored_inv_def)
qed

lemma restore_virtine_good:
  assumes "restored_inv s" "v \<noteq> 0"
  shows "\<exists>s'. restore_virtine s v = Some s' \<and> restored_inv s' \<and>
    stopping (fpga s') = stopping (fpga s)"
proof -
  from assms have rq: "ring_ok (rq (fpga s))" and cq: "ring_wf (cq (fpga s))"
    and dma: "set (cq_list s) \<subseteq> fst ` set (dma_targets (calls s))"
    by (simp_all add: restored_inv_def)
  obtain r q where q: "insert_tail (cq (fpga s)) v = Some (r, q)" "ring_wf q"
    "ring_list q = (if length (cq_list s) < NUM_POSSIBLE_VIRTINES
                    then cq_list s @ [v] else cq_list s)"
    using ring_fifo.insE [OF cq assms(2)] .
  have "ring_ok q" using q(2) by (simp add: ring_wf_def)
  from restore_virtine_eq [OF rq q(1) this] show ?thesis
    using q rq dma by (auto simp: restored_inv_def)
qed

lemma restored_inv_frame [simp]:
  "restored_inv (set_processing s) = restored_inv s" "restored_inv (clear_doorbell s) = restored_inv s"
  "restored_inv (reset_cleaned s) = restored_inv s" "restored_inv (set_stopping s) = restored_inv s"
  by (simp_all add: restored_inv_def)

lemma restored_inv_call [simp]:
  "dma_targets cs = [] \<Longrightarrow> restored_inv (call cs s) = restored_inv s"
  by (simp add: restored_inv_def)

definition world_inv :: "world \<Rightarrow> bool" where
  "world_inv w \<longleftrightarrow> lock_inv w \<and> stop_inv w \<and> restored_inv (st w)"

lemma device_step:
  assumes "step spur w w'" "restored_inv (st w)"
  shows "restored_inv (st w') \<and>
    (stopping (fpga (st w')) \<longleftrightarrow> stopping (fpga (st w)) \<or> cpu w = StopLock \<and> cpu w' = StopSignal)"
  using assms(1)
proof (cases rule: step.cases)
  case (card_pop v s)
  with pop_rq_good [OF assms(2)] show ?thesis by auto
next
  case (card_restore v s)
  with restore_virtine_good [OF assms(2), of v] show ?thesis by auto
next
  case (cpu_locked op s)
  with mmio_step_good [OF assms(2), of op] show ?thesis by auto
next
  case (cpu_plain op s)
  with mmio_step_good [OF assms(2), of op] show ?thesis by auto
qed (use assms(2) in auto)

lemma stop_inv_step:
  assumes "step spur w w'" "world_inv w"
  shows "stop_inv w'"
proof -
  from assms(2) have inv: "lock_inv w" "stop_inv w" "restored_inv (st w)"
    by (simp_all add: world_inv_def)
  from inv(1) have free: "lock w = None \<Longrightarrow> card w \<noteq> AtWait" by (auto simp: lock_inv_def)
  have rest: "stopping (fpga (st w')) \<Longrightarrow> \<not> stopping (fpga (st w)) \<Longrightarrow>
      cpu w = StopLock \<and> cpu w' = StopSignal"
    "stopping (fpga (st w)) \<Longrightarrow> stopping (fpga (st w'))"
    using device_step [OF assms(1) inv(3)] by blast+
  show ?thesis
  proof (cases "stopping (fpga (st w))")
    case True
    from inv(2) True have now: "card w \<noteq> AtWait" "card w = Asleep \<Longrightarrow> cpu w = StopSignal"
      "cpu w = Stopped \<Longrightarrow> card w = Gone" by (auto simp: stop_inv_def)
    show ?thesis
      unfolding stop_inv_def using assms(1) now rest(2) [OF True] True
      by (cases rule: step.cases) (auto simp: signalled_def)
  next
    case False
    with inv(2) have now: "cpu w \<notin> {StopSignal, StopJoin, Stopped}" by (auto simp: stop_inv_def)
    show ?thesis
    proof (cases "stopping (fpga (st w'))")
      case True
      show ?thesis
        using assms(1) rest(1) [OF True False] True free
        by (cases rule: step.cases) (auto simp: stop_inv_def)
    next
      case still: False
      from assms(1) now have "cpu w' \<notin> {StopSignal, StopJoin, Stopped}"
        using still by (cases rule: step.cases) auto
      with still show ?thesis by (simp add: stop_inv_def)
    qed
  qed
qed

lemma world_inv_step: "step spur w w' \<Longrightarrow> world_inv w \<Longrightarrow> world_inv w'"
  using lock_inv_step stop_inv_step device_step unfolding world_inv_def by blast

lemma world_inv_start:
  assumes "dev_wf s" "cq_list s = []"
  shows "world_inv (start_world s)"
  using assms
  by (simp add: world_inv_def lock_inv_def stop_inv_def restored_inv_def start_world_def
      dev_wf_def ring_wf_def)

lemma reachable_inv:
  assumes "reachable spur s w" "dev_wf s" "cq_list s = []"
  shows "world_inv w"
  using assms(1)
proof induction
  case reach_start
  from assms(2,3) show ?case by (rule world_inv_start)
next
  case (reach_step w w')
  from world_inv_step [OF reach_step.hyps(2) reach_step.IH] show ?case .
qed


subsection \<open>Progress\<close>

text \<open>
  \<open>blocked_on_each_other\<close>: the thread that runs the handlers holds the iothread lock and waits
  for the processing lock (or for the clean-up thread to end), while the clean-up thread
  holds the processing lock and waits for the iothread lock to raise its interrupt.
\<close>

definition blocked_on_each_other :: "world \<Rightarrow> bool" where
  "blocked_on_each_other w \<longleftrightarrow> card w = AtIrq \<and>
     (cpu w = StopLock \<or> cpu w = StopJoin \<or> (\<exists>op. cpu w = Handling op \<and> needs_lock op))"

lemma card_moves:
  assumes "world_inv w" "card w \<notin> {Gone, Asleep}" "card w = AtIrq \<Longrightarrow> bql w = None"
    "card w \<in> {AtLock, Woken} \<Longrightarrow> lock w = None"
  shows "\<exists>w'. step spur w w'"
proof -
  from assms(1) have good: "restored_inv (st w)" by (simp add: world_inv_def)
  show ?thesis
  proof (cases "card w")
    case AtGuard
    then show ?thesis by (meson card_guard_go card_guard_wait)
  next
    case AtStop
    then show ?thesis by (meson card_exit card_begin)
  next
    case AtPop
    with pop_rq_good [OF good] show ?thesis by (meson card_pop)
  next
    case (AtTest v)
    with restore_virtine_good [OF good, of v] show ?thesis
      by (cases "v = 0") (meson card_done card_restore)+
  next
    case AtThreshold
    then show ?thesis by (meson card_below card_reached)
  qed (use assms(2-) in \<open>auto intro: step.intros\<close>)
qed

lemma cpu_moves:
  assumes "world_inv w" "cpu w \<notin> {Stopped, StopJoin}"
    "cpu w = Idle \<Longrightarrow> bql w = None" "cpu w = StopLock \<Longrightarrow> lock w = None"
    "\<And>op. cpu w = Handling op \<Longrightarrow> needs_lock op \<Longrightarrow> lock w = None"
  shows "\<exists>w'. step spur w w'"
proof -
  from assms(1) have good: "restored_inv (st w)" by (simp add: world_inv_def)
  show ?thesis
  proof (cases "cpu w")
    case (Handling op)
    with mmio_step_good [OF good, of op] assms(5) show ?thesis
      by (cases "needs_lock op") (meson cpu_lock cpu_plain)+
  next
    case (Locked op)
    with mmio_step_good [OF good, of op] show ?thesis by (meson cpu_locked)
  qed (use assms(2-4) in \<open>auto intro: step.intros\<close>)
qed

lemma holder_cases: "x = None \<or> x = Some Card \<or> x = Some Cpu"
  by (cases x) (simp, metis thread_id.exhaust)

lemma card_step_unless_blocked:
  assumes "world_inv w" "cpu w \<in> {StopLock, StopJoin} \<or> (\<exists>op. cpu w = Handling op)"
    "card w \<noteq> AtIrq" "card w \<notin> {Gone, Asleep}"
  shows "\<exists>w'. step spur w w'"
proof -
  from assms(1,2) have "lock w \<noteq> Some Cpu" by (auto simp: world_inv_def lock_inv_def)
  moreover from assms(1) have "lock w = Some Card \<longleftrightarrow> card_holds (card w)"
    by (simp add: world_inv_def lock_inv_def)
  ultimately have "card w \<in> {AtLock, Woken} \<Longrightarrow> lock w = None"
    using holder_cases [of "lock w"] by auto
  with card_moves [OF assms(1,4)] assms(3) show ?thesis by blast
qed

lemma step_unless_blocked:
  assumes "world_inv w" "cpu w \<noteq> Stopped" "\<not> blocked_on_each_other w"
  shows "\<exists>w'. step spur w w'"
proof -
  from assms(1) have inv: "lock w = Some Card \<longleftrightarrow> card_holds (card w)"
    "lock w = Some Cpu \<longleftrightarrow> cpu_holds (cpu w)" "bql w = Some Card \<longleftrightarrow> card w = AtNotify"
    "bql w = Some Cpu \<longleftrightarrow> cpu_active (cpu w)"
    by (simp_all add: world_inv_def lock_inv_def)
  note held = holder_cases [of "lock w"] holder_cases [of "bql w"]
  consider (join) "cpu w = StopJoin"
    | (wait) "cpu w = StopLock \<or> (\<exists>op. cpu w = Handling op \<and> needs_lock op)" "lock w \<noteq> None"
    | (idle) "cpu w = Idle" "bql w \<noteq> None"
    | (free) "cpu w \<noteq> StopJoin" "cpu w = Idle \<longrightarrow> bql w = None" "cpu w = StopLock \<longrightarrow> lock w = None"
        "\<forall>op. cpu w = Handling op \<longrightarrow> needs_lock op \<longrightarrow> lock w = None"
    by metis
  then show ?thesis
  proof cases
    case join
    show ?thesis
    proof (cases "card w = Gone")
      case True
      with join show ?thesis by (meson cpu_join)
    next
      case False
      have "card w \<noteq> Asleep" using join assms(1) by (auto simp: world_inv_def stop_inv_def)
      moreover have "card w \<noteq> AtIrq"
        using join assms(3) by (simp add: blocked_on_each_other_def)
      ultimately show ?thesis
        using False join card_step_unless_blocked [OF assms(1)] by blast
    qed
  next
    case wait
    then have "lock w \<noteq> Some Cpu" using inv(2) by auto
    with wait(2) held(1) inv(1) have "card_holds (card w)" by auto
    then have "card w \<notin> {Gone, Asleep}" by auto
    moreover have "card w \<noteq> AtIrq" using wait(1) assms(3) by (auto simp: blocked_on_each_other_def)
    ultimately show ?thesis using wait(1) card_step_unless_blocked [OF assms(1)] by blast
  next
    case idle
    then have "bql w \<noteq> Some Cpu" using inv(4) by auto
    with idle(2) held(2) inv(3) have "card w = AtNotify" by auto
    then show ?thesis by (meson card_notify)
  next
    case free
    with cpu_moves [OF assms(1)] assms(2) show ?thesis by blast
  qed
qed

lemma blocked_no_step:
  assumes "world_inv w" "cpu w = Stopped \<or> blocked_on_each_other w"
  shows "\<not> step spur w w'"
proof
  assume "step spur w w'"
  moreover from assms(1) have "cpu w = Stopped \<Longrightarrow> card w = Gone"
    by (simp add: world_inv_def stop_inv_def)
  moreover from assms(1) have "card w = AtIrq \<Longrightarrow> lock w = Some Card"
    "cpu_active (cpu w) \<Longrightarrow> bql w = Some Cpu"
    by (simp_all add: world_inv_def lock_inv_def)
  ultimately show False
    using assms(2) by (cases rule: step.cases) (auto simp: blocked_on_each_other_def)
qed


subsection \<open>Runs of one thread\<close>

text \<open>
  \<open>step\<^sup>*\<^sup>*\<close> is not distinguished by thread; the lemmas give runs in which only the named
  thread moves.  The first run is the whole turn of the clean-up thread.
\<close>

lemmas run1 = r_into_rtranclp [of "step spur" for spur]
lemmas run_then = converse_rtranclp_into_rtranclp [of "step spur" for spur]

lemma card_cleans_one:
  assumes "card w = AtTest v" "v \<noteq> 0" "bql w = None" "clean_virtine (st w) v = Some s"
  shows "(step spur)\<^sup>*\<^sup>* w (w\<lparr>card := AtPop, st := s\<rparr>)"
proof -
  from assms(4) obtain s1 where s1: "restore_virtine (st w) v = Some s1"
    by (auto simp: clean_virtine_def split: bind_splits)
  let ?w1 = "w\<lparr>card := AtThreshold, st := s1\<rparr>"
  have first: "step spur w ?w1" using assms(1,2) s1 by (rule card_restore)
  show ?thesis
  proof (cases "batch_reached s1")
    case False
    with s1 assms(4) have "s = s1" by (simp add: clean_virtine_def)
    with False have "step spur ?w1 (w\<lparr>card := AtPop, st := s\<rparr>)"
      using card_below [of ?w1 spur] by (cases w) simp
    with first show ?thesis by (meson run1 run_then)
  next
    case True
    let ?s2 = "call [IothreadLock] s1"
    let ?w2 = "w\<lparr>card := AtNotify, bql := Some Card, st := ?s2\<rparr>"
    from s1 assms(4) True have s: "s = reset_cleaned (call [IothreadUnlock] (call [MsiNotify 0] ?s2))"
      by (simp add: clean_virtine_def)
    have "step spur ?w1 (w\<lparr>card := AtIrq, st := s1\<rparr>)"
      using card_reached [of ?w1 spur] True by (cases w) simp
    moreover have "step spur (w\<lparr>card := AtIrq, st := s1\<rparr>) ?w2"
      using card_bql [of "w\<lparr>card := AtIrq, st := s1\<rparr>" spur] assms(3) by (cases w) simp
    moreover have "step spur ?w2 (w\<lparr>card := AtPop, st := s\<rparr>)"
      using card_notify [of ?w2 spur] assms(3) s by (cases w) simp
    ultimately show ?thesis using first by (meson run1 run_then)
  qed
qed

lemma card_runs_loop:
  assumes "clean_loop s v = Some s'" "card w = AtTest v" "bql w = None" "st w = s"
  shows "(step spur)\<^sup>*\<^sup>* w (w\<lparr>card := AtUnlock, st := s'\<rparr>)"
  using assms
proof (induction arbitrary: w rule: clean_loop.raw_induct [rotated, consumes 1])
  case (1 loop s v s')
  show ?case
  proof (cases "v = 0")
    case True
    with "1"(2-) card_done [of w spur] show ?thesis by (cases w) auto
  next
    case False
    from "1"(2) False obtain s1 r s2 where r: "clean_virtine s v = Some s1"
      "pop_rq s1 = Some (r, s2)" "loop s2 r = Some s'"
      by (auto split: bind_splits)
    let ?w1 = "w\<lparr>card := AtPop, st := s1\<rparr>"
    let ?w2 = "w\<lparr>card := AtTest r, st := s2\<rparr>"
    have "(step spur)\<^sup>*\<^sup>* w ?w1"
      using card_cleans_one "1"(3-) False r(1) by simp
    moreover have "step spur ?w1 ?w2" using card_pop [of ?w1 r s2 spur] r(2) by (cases w) simp
    moreover have "(step spur)\<^sup>*\<^sup>* ?w2 (?w2\<lparr>card := AtUnlock, st := s'\<rparr>)"
      using "1"(1) [OF r(3), of ?w2] "1"(3-) by simp
    ultimately show ?thesis by (simp add: rtranclp_trans)
  qed
qed

fun rest_world :: "world \<Rightarrow> turn \<Rightarrow> world" where
  "rest_world w (Sleeps s) = w\<lparr>card := Asleep, st := s\<rparr>"
| "rest_world w (Exits s) = w\<lparr>card := Gone, st := s\<rparr>"
| "rest_world w (Cleaned s) = w\<lparr>card := AtLock, st := s\<rparr>"

lemma card_runs_turn:
  assumes "card w = AtLock" "lock w = None" "bql w = None" "cleanup_turn (st w) = Some t"
  shows "(step spur)\<^sup>*\<^sup>* w (rest_world w t)"
proof -
  let ?s = "call [MutexLock] (st w)"
  let ?at = "\<lambda>p s. w\<lparr>card := p, lock := Some Card, st := s\<rparr>"
  have first: "step spur w (?at AtGuard ?s)" using assms(1,2) by (rule card_lock)
  consider (sleep) "\<not> doorbell (fpga ?s)" "\<not> stopping (fpga ?s)"
    | (stop) "stopping (fpga ?s)" | (go) "doorbell (fpga ?s)" "\<not> stopping (fpga ?s)" by blast
  then show ?thesis
  proof cases
    case sleep
    then have "step spur (?at AtGuard ?s) (?at AtWait ?s)"
      using card_guard_wait [of "?at AtGuard ?s" spur] by (cases w) simp
    moreover have "step spur (?at AtWait ?s) (w\<lparr>card := Asleep, st := ?s\<rparr>)"
      using card_wait [of "?at AtWait ?s" spur] assms(2) by (cases w) simp
    moreover have "t = Sleeps ?s" using assms(4) sleep by (simp add: cleanup_turn_def)
    ultimately show ?thesis using first by (auto intro: run1 run_then)
  next
    case stop
    then have "step spur (?at AtGuard ?s) (?at AtStop ?s)"
      using card_guard_go [of "?at AtGuard ?s" spur] by (cases w) simp
    moreover have "step spur (?at AtStop ?s) (w\<lparr>card := Gone, st := call [MutexUnlock] ?s\<rparr>)"
      using card_exit [of "?at AtStop ?s" spur] assms(2) stop by (cases w) simp
    moreover have "t = Exits (call [MutexUnlock] ?s)"
      using assms(4) stop by (simp add: cleanup_turn_def)
    ultimately show ?thesis using first by (auto intro: run1 run_then)
  next
    case go
    let ?c = "clear_doorbell (set_processing ?s)"
    from assms(4) go obtain v s1 s2 where c: "pop_rq ?c = Some (v, s1)" "clean_loop s1 v = Some s2"
      "t = Cleaned (call [MutexUnlock] s2)"
      by (auto simp: cleanup_turn_def clean_pass_def Let_def split: bind_splits)
    have "step spur (?at AtGuard ?s) (?at AtStop ?s)"
      using card_guard_go [of "?at AtGuard ?s" spur] go by (cases w) simp
    moreover have "step spur (?at AtStop ?s) (?at AtClear (set_processing ?s))"
      using card_begin [of "?at AtStop ?s" spur] go by (cases w) simp
    moreover have "step spur (?at AtClear (set_processing ?s)) (?at AtPop ?c)"
      using card_clear [of "?at AtClear (set_processing ?s)" spur] by (cases w) simp
    moreover have "step spur (?at AtPop ?c) (?at (AtTest v) s1)"
      using card_pop [of "?at AtPop ?c" v s1 spur] c(1) by (cases w) simp
    moreover have "(step spur)\<^sup>*\<^sup>* (?at (AtTest v) s1) (?at AtUnlock s2)"
    proof -
      have e: "(?at (AtTest v) s1)\<lparr>card := AtUnlock, st := s2\<rparr> = ?at AtUnlock s2"
        by (cases w) simp
      show ?thesis
        using card_runs_loop [OF c(2), of "?at (AtTest v) s1" spur, unfolded e] assms(3) by simp
    qed
    moreover have "step spur (?at AtUnlock s2) (rest_world w t)"
      using card_unlock [of "?at AtUnlock s2" spur] assms(2) c(3) by (cases w) simp
    ultimately show ?thesis using first
      by (meson converse_rtranclp_into_rtranclp rtranclp.rtrancl_into_rtrancl)
  qed
qed

lemma reachable_run: "(step spur)\<^sup>*\<^sup>* w w' \<Longrightarrow> reachable spur s w \<Longrightarrow> reachable spur s w'"
  by (induction rule: rtranclp_induct) (auto intro: reach_step)


text \<open>Runs of the guest: one MMIO access from entering QEMU to leaving it.\<close>

lemma guest_plain:
  assumes "cpu w = Idle" "bql w = None" "\<not> needs_lock op" "mmio_step (st w) op = Some s"
  shows "(step spur)\<^sup>*\<^sup>* w
    (w\<lparr>card := (if rings op then signalled (card w) else card w), st := s\<rparr>)"
proof -
  let ?w1 = "w\<lparr>cpu := Handling op, bql := Some Cpu\<rparr>"
  let ?w2 = "?w1\<lparr>cpu := (if rings op then Signalling else Leaving), st := s\<rparr>"
  let ?w3 = "w\<lparr>card := (if rings op then signalled (card w) else card w), cpu := Leaving,
    bql := Some Cpu, st := s\<rparr>"
  have "step spur w ?w1" using assms(1,2) by (rule cpu_enter)
  moreover have "step spur ?w1 ?w2" using cpu_plain [of ?w1 op s spur] assms(3,4) by simp
  moreover have "(step spur)\<^sup>*\<^sup>* ?w2 ?w3"
  proof (cases "rings op")
    case True
    then show ?thesis using cpu_signal [of ?w2 spur] by (cases w) (auto intro: run1)
  next
    case False
    then show ?thesis by (cases w) simp
  qed
  moreover have "step spur ?w3 (w\<lparr>card := (if rings op then signalled (card w) else card w), st := s\<rparr>)"
    using cpu_leave [of ?w3 spur] assms(1,2) by (cases w) simp
  ultimately show ?thesis
    by (meson converse_rtranclp_into_rtranclp rtranclp.rtrancl_into_rtrancl)
qed

lemma guest_locked:
  assumes "cpu w = Idle" "bql w = None" "lock w = None" "needs_lock op" "mmio_step (st w) op = Some s"
  shows "(step spur)\<^sup>*\<^sup>* w (w\<lparr>st := s\<rparr>)"
proof -
  let ?w1 = "w\<lparr>cpu := Handling op, bql := Some Cpu\<rparr>"
  let ?w2 = "?w1\<lparr>cpu := Locked op, lock := Some Cpu\<rparr>"
  let ?w3 = "w\<lparr>cpu := Leaving, bql := Some Cpu, st := s\<rparr>"
  have "step spur w ?w1" using assms(1,2) by (rule cpu_enter)
  moreover have "step spur ?w1 ?w2" using cpu_lock [of ?w1 op spur] assms(3,4) by simp
  moreover have "step spur ?w2 ?w3"
    using cpu_locked [of ?w2 op s spur] assms(3,5) by (cases w) simp
  moreover have "step spur ?w3 (w\<lparr>st := s\<rparr>)"
    using cpu_leave [of ?w3 spur] assms(1,2) by (cases w) simp
  ultimately show ?thesis by (meson run1 run_then)
qed

lemmas guest_op_simps = needs_lock_def rings_def reg_simps

lemma guest_enqueues:
  assumes "dev_wf (st w)" "cpu w = Idle" "bql w = None" "lock w = None" "v \<noteq> (0 :: hwaddr)"
  obtains s q where "(step spur)\<^sup>*\<^sup>* w (w\<lparr>st := s\<rparr>)" "dev_wf s" "rq_list s \<noteq> []"
    "fpga s = (fpga (st w))\<lparr>rq := q\<rparr>"
proof -
  let ?lo = "WriteReg RQ_TAIL_OFFSET_REG (ucast (lo32 v))"
  let ?hi = "WriteReg (RQ_TAIL_OFFSET_REG + 4) (ucast (hi32 v))"
  let ?s1 = "(st w)\<lparr>split_write := ucast (lo32 v)\<rparr>"
  from assms(1) have rq: "ring_wf (rq (fpga (st w)))" and cq: "ring_wf (cq (fpga (st w)))"
    by (simp_all add: dev_wf_def)
  obtain r q where q: "insert_tail (rq (fpga (st w))) v = Some (r, q)" "ring_wf q"
    "ring_list q = (if length (rq_list (st w)) < NUM_POSSIBLE_VIRTINES
                    then rq_list (st w) @ [v] else rq_list (st w))"
    using ring_fifo.insE [OF rq assms(5)] .
  let ?s2 = "(set_rq q (call [MutexLock, MutexUnlock] ?s1))\<lparr>split_write := v\<rparr>"
  have "mmio_step (st w) ?lo = Some ?s1" by (simp add: dev_simps)
  from guest_plain [OF assms(2,3) _ this] have "(step spur)\<^sup>*\<^sup>* w (w\<lparr>st := ?s1\<rparr>)"
    by (cases w) (simp add: guest_op_simps)
  moreover have "mmio_step ?s1 ?hi = Some ?s2" using q(1) by (simp add: dev_simps Let_def)
  then have "(step spur)\<^sup>*\<^sup>* (w\<lparr>st := ?s1\<rparr>) (w\<lparr>st := ?s2\<rparr>)"
    using guest_locked [of "w\<lparr>st := ?s1\<rparr>" ?hi ?s2 spur] assms(2-4) by (simp add: guest_op_simps)
  ultimately have "(step spur)\<^sup>*\<^sup>* w (w\<lparr>st := ?s2\<rparr>)" by (rule rtranclp_trans)
  moreover have "dev_wf ?s2" using q(2) cq by (simp add: dev_wf_def)
  moreover have "rq_list ?s2 \<noteq> []" using q(3) by (auto simp: NUM_POSSIBLE_VIRTINES_def)
  moreover have "fpga ?s2 = (fpga (st w))\<lparr>rq := q\<rparr>" by simp
  ultimately show ?thesis by (rule that)
qed


subsection \<open>Two runs that go wrong\<close>

lemma start_world_simps [simp]:
  "st (start_world s) = s" "card (start_world s) = AtLock" "cpu (start_world s) = Idle"
  "lock (start_world s) = None" "bql (start_world s) = None"
  by (simp_all add: start_world_def)

text \<open>A step that sends no signal on the condition variable.\<close>

definition silent_step :: "world \<Rightarrow> world \<Rightarrow> bool" where
  "silent_step w w' \<longleftrightarrow> step False w w' \<and> cpu w \<noteq> Signalling \<and> cpu w \<noteq> StopSignal"

lemma asleep_until_signalled:
  assumes "silent_step\<^sup>*\<^sup>* w w'" "card w = Asleep"
  shows "card w' = Asleep"
  using assms
proof (induction rule: rtranclp_induct)
  case (step u v)
  then have "step False u v" "cpu u \<noteq> Signalling" "cpu u \<noteq> StopSignal" "card u = Asleep"
    by (auto simp: silent_step_def)
  then show ?case by (elim step_from) simp_all
qed

lemma run_loses_wakeup:
  assumes "dev_wf s" "\<not> doorbell (fpga s)" "\<not> stopping (fpga s)" "v \<noteq> (0 :: hwaddr)"
  shows "\<exists>w. reachable spur s w \<and> card w = Asleep \<and> cpu w = Idle \<and> doorbell (fpga (st w)) \<and>
    rq_list (st w) \<noteq> []"
proof -
  let ?w0 = "start_world s"
  from assms(1,4) obtain s2 q where s2: "(step spur)\<^sup>*\<^sup>* ?w0 (?w0\<lparr>st := s2\<rparr>)" "dev_wf s2"
    "rq_list s2 \<noteq> []" "fpga s2 = (fpga s)\<lparr>rq := q\<rparr>"
    using guest_enqueues [of ?w0 v spur] by auto
  from s2(4) assms(2,3) have flags: "\<not> doorbell (fpga s2)" "\<not> stopping (fpga s2)"
    by (simp_all add: irq_due_def)
  let ?s3 = "call [MutexLock] s2"
  let ?ring = "WriteReg DOORBELL_REG 1"
  let ?s4 = "call [CondSignal] (?s3\<lparr>fpga := (fpga ?s3)\<lparr>doorbell := True\<rparr>\<rparr>)"
  let ?at = "\<lambda>p s. ?w0\<lparr>card := p, lock := Some Card, st := s\<rparr>"
  have "step spur (?w0\<lparr>st := s2\<rparr>) (?at AtGuard ?s3)"
    using card_lock [of "?w0\<lparr>st := s2\<rparr>" spur] by (simp add: start_world_def)
  moreover have "step spur (?at AtGuard ?s3) (?at AtWait ?s3)"
    using card_guard_wait [of "?at AtGuard ?s3" spur] flags by (simp add: start_world_def)
  moreover have "(step spur)\<^sup>*\<^sup>* (?at AtWait ?s3) (?at AtWait ?s4)"
    using guest_plain [of "?at AtWait ?s3" ?ring ?s4 spur]
    by (simp add: guest_op_simps signalled_def virtine_fpga_mmio_write_def start_world_def)
  moreover have "step spur (?at AtWait ?s4) (?w0\<lparr>card := Asleep, st := ?s4\<rparr>)"
    using card_wait [of "?at AtWait ?s4" spur] by (simp add: start_world_def)
  ultimately have "(step spur)\<^sup>*\<^sup>* ?w0 (?w0\<lparr>card := Asleep, st := ?s4\<rparr>)"
    using s2(1) by (meson converse_rtranclp_into_rtranclp rtranclp.rtrancl_into_rtrancl rtranclp_trans)
  from reachable_run [OF this reach_start] show ?thesis
    by (intro exI) (erule conjI, simp add: s2(3))
qed

lemma card_gets_to_irq:
  assumes "card w = AtLock" "lock w = None" "doorbell (fpga (st w))" "\<not> stopping (fpga (st w))"
    "dev_wf (st w)" "rq_list (st w) \<noteq> []" "irq_due (st w)"
  shows "\<exists>s. (step spur)\<^sup>*\<^sup>* w (w\<lparr>card := AtIrq, lock := Some Card, st := s\<rparr>)"
proof -
  let ?at = "\<lambda>p s. w\<lparr>card := p, lock := Some Card, st := s\<rparr>"
  let ?s = "call [MutexLock] (st w)"
  let ?c = "clear_doorbell (set_processing ?s)"
  have c: "dev_wf ?c" "rq_list ?c = rq_list (st w)" using assms(5) by simp_all
  obtain s1 where "pop_rq ?c = Some (if rq_list ?c = [] then 0 else hd (rq_list ?c), s1)" "dev_wf s1"
    using abs_card_pop_rq [OF c(1)] by metis
  then obtain v where v: "pop_rq ?c = Some (v, s1)" "dev_wf s1" "v = hd (rq_list ?c)"
    using c(2) assms(6) by simp
  have "v \<in> set (rq_list ?c)" using v(3) c(2) assms(6) by simp
  then have nz: "v \<noteq> 0"
    using ring_fifo.no_null [of "rq (fpga ?c)"] c(1) by (auto simp: dev_wf_def)
  have wf: "ring_wf (rq (fpga s1))" "ring_wf (cq (fpga s1))" using v(2) by (simp_all add: dev_wf_def)
  obtain r q where q: "insert_tail (cq (fpga s1)) v = Some (r, q)" "ring_wf q"
    using ring_fifo.insE [OF wf(2) nz] by metis
  let ?s2 = "virtine_restored s1 v q"
  have r: "restore_virtine s1 v = Some ?s2"
    using restore_virtine_eq q wf by (simp add: ring_wf_def)
  have due: "batch_reached ?s2"
    using v(1) assms(7)
    by (auto simp: batch_reached_def irq_due_def pop_rq_def clear_doorbell_def set_processing_def)
  have "step spur w (?at AtGuard ?s)" using assms(1,2) by (rule card_lock)
  moreover have "step spur (?at AtGuard ?s) (?at AtStop ?s)"
    using card_guard_go [of "?at AtGuard ?s" spur] assms(3) by (cases w) simp
  moreover have "step spur (?at AtStop ?s) (?at AtClear (set_processing ?s))"
    using card_begin [of "?at AtStop ?s" spur] assms(4) by (cases w) simp
  moreover have "step spur (?at AtClear (set_processing ?s)) (?at AtPop ?c)"
    using card_clear [of "?at AtClear (set_processing ?s)" spur] by (cases w) simp
  moreover have "step spur (?at AtPop ?c) (?at (AtTest v) s1)"
    using card_pop [of "?at AtPop ?c" v s1 spur] v(1) by (cases w) simp
  moreover have "step spur (?at (AtTest v) s1) (?at AtThreshold ?s2)"
    using card_restore [of "?at (AtTest v) s1" v ?s2 spur] r nz by (cases w) simp
  moreover have "step spur (?at AtThreshold ?s2) (?at AtIrq ?s2)"
    using card_reached [of "?at AtThreshold ?s2" spur] due by (cases w) simp
  ultimately have "(step spur)\<^sup>*\<^sup>* w (?at AtIrq ?s2)"
    by (meson converse_rtranclp_into_rtranclp rtranclp.rtrancl_into_rtrancl run1)
  then show ?thesis by (rule exI)
qed

lemma run_deadlocks:
  assumes "dev_wf s" "\<not> stopping (fpga s)" "irq_due s" "v \<noteq> (0 :: hwaddr)"
  shows "\<exists>w. reachable spur s w \<and> blocked_on_each_other w"
proof -
  let ?w0 = "start_world s"
  from assms(1,4) obtain s2 q where s2: "(step spur)\<^sup>*\<^sup>* ?w0 (?w0\<lparr>st := s2\<rparr>)" "dev_wf s2"
    "rq_list s2 \<noteq> []" "fpga s2 = (fpga s)\<lparr>rq := q\<rparr>"
    using guest_enqueues [of ?w0 v spur] by auto
  from s2(4) assms(2,3) have flags: "\<not> stopping (fpga s2)" "irq_due s2"
    by (simp_all add: irq_due_def)
  let ?ring = "WriteReg DOORBELL_REG 1"
  let ?s3 = "call [CondSignal] (s2\<lparr>fpga := (fpga s2)\<lparr>doorbell := True\<rparr>\<rparr>)"
  let ?w3 = "?w0\<lparr>st := ?s3\<rparr>"
  have "(step spur)\<^sup>*\<^sup>* (?w0\<lparr>st := s2\<rparr>) ?w3"
    using guest_plain [of "?w0\<lparr>st := s2\<rparr>" ?ring ?s3 spur]
    by (simp add: guest_op_simps signalled_def virtine_fpga_mmio_write_def start_world_def)
  with s2(1) have "(step spur)\<^sup>*\<^sup>* ?w0 ?w3" by (rule rtranclp_trans)
  moreover obtain s4 where
    "(step spur)\<^sup>*\<^sup>* ?w3 (?w3\<lparr>card := AtIrq, lock := Some Card, st := s4\<rparr>)"
    using card_gets_to_irq [of ?w3 spur] s2 flags by (auto simp: dev_wf_def irq_due_def)
  moreover let ?w4 = "?w3\<lparr>card := AtIrq, lock := Some Card, st := s4\<rparr>"
  let ?op = "ReadReg CQ_HEAD_OFFSET_REG"
  have "step spur ?w4 (?w4\<lparr>cpu := Handling ?op, bql := Some Cpu\<rparr>)" by (rule cpu_enter) simp_all
  ultimately have "(step spur)\<^sup>*\<^sup>* ?w0 (?w4\<lparr>cpu := Handling ?op, bql := Some Cpu\<rparr>)"
    by (meson rtranclp.rtrancl_into_rtrancl rtranclp_trans)
  from reachable_run [OF this reach_start] show ?thesis
    by (intro exI conjI) (auto simp: blocked_on_each_other_def needs_lock_def)
qed


subsection \<open>Properties of the two threads\<close>



text \<open>
  C15. Only clean virtines are handed back: in every reachable state, each address that waits in the
  completed queue has been the target of a DMA copy of the snapshot before.
\<close>

theorem completed_were_restored:
  assumes "reachable spur s w" "dev_wf s" "cq_list s = []"
  shows "set (cq_list (st w)) \<subseteq> fst ` set (dma_targets (calls (st w)))"
  using reachable_inv [OF assms] by (simp add: world_inv_def restored_inv_def)

theorem completed_were_restored_witness:
  "set (cq_list example_device) \<subseteq> fst ` set (dma_targets (calls example_device))"
  using completed_were_restored [OF reach_start example_device_wf(1,3)]
  by (simp add: start_world_def)



text \<open>
  C13. The only way to get stuck: a reachable state has no next step exactly when the device has been
  shut down, or when the two threads wait for each other's lock: the clean-up thread, holding the
  processing lock, for the iothread lock it needs to raise its interrupt, and the other, holding
  the iothread lock, for the processing lock or for the clean-up thread to end.
\<close>

theorem stuck_iff_blocked:
  assumes "reachable spur s w" "dev_wf s" "cq_list s = []"
  shows "(\<nexists>w'. step spur w w') \<longleftrightarrow> cpu w = Stopped \<or> blocked_on_each_other w"
  using step_unless_blocked blocked_no_step reachable_inv [OF assms] by metis

theorem stuck_iff_blocked_witness:
  "\<exists>w'. step False (start_world example_device) w'"
  using stuck_iff_blocked [OF reach_start example_device_wf(1,3), of False]
  by (auto simp: start_world_def blocked_on_each_other_def)

text \<open>
  C16. That deadlock happens: on a device whose next restored virtine is due an interrupt, as it is
  after \<open>virtine_fpga_realize\<close>, the guest can queue one virtine, ring the doorbell and read the
  completed queue at a moment from which neither thread can ever move again.
\<close>

theorem lock_order_deadlock:
  assumes "dev_wf s" "cq_list s = []" "\<not> stopping (fpga s)" "irq_due s"
  shows "\<exists>w. reachable False s w \<and> blocked_on_each_other w \<and> (\<forall>spur w'. \<not> step spur w w')"
proof -
  from run_deadlocks [OF assms(1,3,4), of 1 False] obtain w where
    w: "reachable False s w" "blocked_on_each_other w" by auto
  with blocked_no_step [OF reachable_inv [OF w(1) assms(1,2)]] show ?thesis by blast
qed

theorem lock_order_deadlock_witness:
  "\<exists>w. reachable False example_device w \<and> blocked_on_each_other w"
proof -
  have "\<not> stopping (fpga example_device)" "irq_due example_device"
    by (simp_all add: realize_fields irq_due_def created_def)
  from lock_order_deadlock [OF example_device_wf(1,3) this] show ?thesis by blast
qed

text \<open>
  C17. The doorbell can be missed: the MMIO handler sets it and signals without taking the processing
  lock, so the ring can fall between the thread's test of the doorbell and its going to sleep.
  Then the thread sleeps with the doorbell set and work queued, and sleeps on until the guest
  rings again or the device is removed.
\<close>

theorem doorbell_missed:
  assumes "dev_wf s" "\<not> doorbell (fpga s)" "\<not> stopping (fpga s)"
  shows "\<exists>w. reachable False s w \<and> card w = Asleep \<and> cpu w = Idle \<and> doorbell (fpga (st w)) \<and>
    rq_list (st w) \<noteq> [] \<and> (\<forall>w'. silent_step\<^sup>*\<^sup>* w w' \<longrightarrow> card w' = Asleep)"
  using run_loses_wakeup [OF assms, of 1 False] asleep_until_signalled by auto

theorem doorbell_missed_witness:
  "\<exists>w. reachable False example_device w \<and> card w = Asleep \<and> doorbell (fpga (st w))"
proof -
  have "\<not> doorbell (fpga example_device)" "\<not> stopping (fpga example_device)"
    by (simp_all add: realize_fields created_def)
  from doorbell_missed [OF example_device_wf(1) this] show ?thesis by blast
qed



text \<open>
  C31. Shutdown is safe: once \<open>virtine_fpga_uninit\<close> has set \<open>stopping\<close>, the clean-up thread cannot go
  to sleep for good, since only a thread still to be signalled sleeps; and when the condition
  variable and the mutex are destroyed the thread has ended and nobody holds the mutex.
\<close>

theorem shutdown_not_missed:
  assumes "reachable spur s w" "dev_wf s" "cq_list s = []" "stopping (fpga (st w))"
  shows "(card w = Asleep \<longrightarrow> cpu w = StopSignal) \<and> card w \<noteq> AtWait \<and>
    (cpu w = Stopped \<longrightarrow> card w = Gone \<and> lock w = None)"
proof -
  from reachable_inv [OF assms(1-3)] have "stop_inv w" "lock_inv w"
    by (simp_all add: world_inv_def)
  with assms(4) show ?thesis
    using holder_cases [of "lock w"] by (auto simp: stop_inv_def lock_inv_def)
qed

theorem shutdown_not_missed_witness:
  "card ((start_world (set_stopping example_device))) \<noteq> AtWait"
proof -
  have "dev_wf (set_stopping example_device)" "cq_list (set_stopping example_device) = []"
    using example_device_wf by (simp_all add: dev_wf_def)
  from shutdown_not_missed [OF reach_start this] show ?thesis by simp
qed

end
