(* ===== verification/Delivery.thy ===== *)
theory Delivery
  imports Interleaving
begin

section \<open>Delivery under every interleaving\<close>

text \<open>
  The end-to-end promise of the device: whatever the guest queues is restored and handed back, each
  address once and in order, however the two threads interleave.  A run of \<open>step\<close> is read as a
  history of what can be observed at the two queues and at the DMA: the guest's insertions into
  the ready queue, the restored virtines, and the values the guest reads at the completed queue's
  head register.
\<close>

datatype event = Queued hwaddr | Restored hwaddr | Fetched hwaddr

text \<open>The event of a step from \<open>w\<close> to \<open>w'\<close>; a read of an empty completed queue fetches 0.\<close>

definition event_of :: "world \<Rightarrow> world \<Rightarrow> event list" where
  "event_of w w' =
    (case cpu w of
       Locked op \<Rightarrow>
         if cpu w' \<noteq> Leaving then []
         else (case op of
                 ReadReg a \<Rightarrow> [Fetched (split_return (st w'))]
               | WriteReg a v \<Rightarrow> [Queued (push_bit 32 v OR split_write (st w))])
     | _ \<Rightarrow> []) @
    (case card w of
       AtTest v \<Rightarrow> if card w' = AtThreshold then [Restored v] else []
     | _ \<Rightarrow> [])"

inductive traced :: "bool \<Rightarrow> qemu_state \<Rightarrow> event list \<Rightarrow> world \<Rightarrow> bool" for spur s where
  traced_start: "traced spur s [] (start_world s)"
| traced_step: "traced spur s h w \<Longrightarrow> step spur w w' \<Longrightarrow> traced spur s (h @ event_of w w') w'"

lemma traced_reachable: "traced spur s h w \<Longrightarrow> reachable spur s w"
  by (induction rule: traced.induct) (auto intro: reachable.intros)

lemma reachable_traced: "reachable spur s w \<Longrightarrow> \<exists>h. traced spur s h w"
  by (induction rule: reachable.induct) (auto intro: traced.intros)

subsection \<open>Reading a history\<close>

fun queued :: "event list \<Rightarrow> hwaddr list" where
  "queued [] = []"
| "queued (Queued v # h) = v # queued h"
| "queued (_ # h) = queued h"

fun restored :: "event list \<Rightarrow> hwaddr list" where
  "restored [] = []"
| "restored (Restored v # h) = v # restored h"
| "restored (_ # h) = restored h"

text \<open>The addresses fetched; 0 is the answer of an empty queue.\<close>

fun fetched :: "event list \<Rightarrow> hwaddr list" where
  "fetched [] = []"
| "fetched (Fetched v # h) = (if v = 0 then fetched h else v # fetched h)"
| "fetched (_ # h) = fetched h"

lemma history_append [simp]:
  "queued (h @ h') = queued h @ queued h'" "restored (h @ h') = restored h @ restored h'"
  "fetched (h @ h') = fetched h @ fetched h'"
proof -
  show "queued (h @ h') = queued h @ queued h'" by (induction h rule: queued.induct) simp_all
  show "restored (h @ h') = restored h @ restored h'" by (induction h rule: restored.induct) simp_all
  show "fetched (h @ h') = fetched h @ fetched h'" by (induction h rule: fetched.induct) simp_all
qed

text \<open>
  A guest that keeps to the capacity never has more than 100 addresses out, and never queues the
  address 0.
\<close>

definition keeps_capacity :: "event list \<Rightarrow> bool" where
  "keeps_capacity h \<longleftrightarrow> 0 \<notin> set (queued h) \<and>
     (\<forall>k \<le> length h. length (queued (take k h)) \<le> length (fetched (take k h)) + NUM_POSSIBLE_VIRTINES)"

lemma keeps_capacity_append:
  assumes "keeps_capacity (h @ h')"
  shows "keeps_capacity h" "0 \<notin> set (queued (h @ h'))"
    "length (queued (h @ h')) \<le> length (fetched (h @ h')) + NUM_POSSIBLE_VIRTINES"
proof -
  have "length (queued (take k h)) \<le> length (fetched (take k h)) + NUM_POSSIBLE_VIRTINES"
    if "k \<le> length h" for k
  proof -
    have "take k (h @ h') = take k h" "k \<le> length (h @ h')" using that by simp_all
    with assms show ?thesis unfolding keeps_capacity_def by metis
  qed
  with assms show "keeps_capacity h" by (simp add: keeps_capacity_def)
  show "0 \<notin> set (queued (h @ h'))" using assms by (simp add: keeps_capacity_def)
  have "take (length (h @ h')) (h @ h') = h @ h'" by simp
  with assms show "length (queued (h @ h')) \<le> length (fetched (h @ h')) + NUM_POSSIBLE_VIRTINES"
    unfolding keeps_capacity_def by (metis order_refl)
qed

subsection \<open>The invariant\<close>

text \<open>The address the co-processor has popped and not yet restored.\<close>

definition in_hand :: "world \<Rightarrow> hwaddr list" where
  "in_hand w = (case card w of AtTest v \<Rightarrow> if v = 0 then [] else [v] | _ \<Rightarrow> [])"

definition delivery_inv :: "event list \<Rightarrow> world \<Rightarrow> bool" where
  "delivery_inv h w \<longleftrightarrow> dev_wf (st w) \<and>
     (\<forall>op. cpu w = Locked op \<longrightarrow> needs_lock op) \<and>
     restored h = fetched h @ cq_list (st w) \<and>
     queued h = restored h @ in_hand w @ rq_list (st w)"

lemma needs_lock_cases:
  assumes "needs_lock op"
  obtains (pop) "op = ReadReg CQ_HEAD_OFFSET_REG" | (push) v where "op = WriteReg (RQ_TAIL_OFFSET_REG + 4) v"
  using assms by (cases op) (auto simp: needs_lock_def)

lemma plain_mmio_frame:
  assumes "mmio_step s op = Some s'" "\<not> needs_lock op" "dev_wf s"
  shows "rq (fpga s') = rq (fpga s)" "cq (fpga s') = cq (fpga s)"
proof -
  have "rq (fpga s') = rq (fpga s) \<and> cq (fpga s') = cq (fpga s)"
  proof (cases op)
    case (ReadReg a)
    show ?thesis
    proof (cases "a = CQ_HEAD_OFFSET_REG + 4")
      case True
      with assms(1) ReadReg show ?thesis by (auto simp: dev_simps)
    next
      case False
      with mmio_read_frame [OF dev_wf_ok [OF assms(3)], of a 4] assms(1,2) ReadReg show ?thesis
        by (auto simp: needs_lock_def)
    qed
  next
    case (WriteReg a v)
    with assms(1,2) show ?thesis
      by (auto simp: virtine_fpga_mmio_write_def needs_lock_def Let_def split: if_splits)
  qed
  then show "rq (fpga s') = rq (fpga s)" "cq (fpga s') = cq (fpga s)" by simp_all
qed

text \<open>A step that has no event and leaves the queues and the address in hand alone keeps the invariant.\<close>

lemma delivery_frame:
  assumes "delivery_inv h w" "event_of w w' = []" "in_hand w' = in_hand w"
    "rq (fpga (st w')) = rq (fpga (st w))" "cq (fpga (st w')) = cq (fpga (st w))"
    "\<And>op. cpu w' = Locked op \<Longrightarrow> needs_lock op"
  shows "delivery_inv (h @ event_of w w') w'"
  using assms by (simp add: delivery_inv_def dev_wf_def)

lemma events_of_card_step:
  assumes "cpu w' = cpu w"
  shows "event_of w w' = (case card w of AtTest v \<Rightarrow> if card w' = AtThreshold then [Restored v] else [] | _ \<Rightarrow> [])"
  using assms by (auto simp: event_of_def split: cpu_pc.split)

lemma events_of_cpu_step:
  assumes "card w' = card w"
  shows "event_of w w' =
    (case cpu w of
       Locked op \<Rightarrow>
         if cpu w' \<noteq> Leaving then []
         else (case op of
                 ReadReg a \<Rightarrow> [Fetched (split_return (st w'))]
               | WriteReg a v \<Rightarrow> [Queued (push_bit 32 v OR split_write (st w))])
     | _ \<Rightarrow> [])"
  using assms by (auto simp: event_of_def split: card_pc.split)

lemma delivery_pop:
  assumes "delivery_inv h w" "card w = AtPop" "pop_rq (st w) = Some (v, s)"
  shows "delivery_inv (h @ event_of w (w\<lparr>card := AtTest v, st := s\<rparr>)) (w\<lparr>card := AtTest v, st := s\<rparr>)"
proof -
  from assms(1) have rq: "ring_wf (rq (fpga (st w)))" by (simp add: delivery_inv_def dev_wf_def)
  obtain q where q: "pop_head (rq (fpga (st w))) =
      Some (if rq_list (st w) = [] then 0 else hd (rq_list (st w)), q)" "ring_wf q" "ring_list q = tl (rq_list (st w))"
    using ring_fifo.popE [OF rq] .
  then have s: "v = (if rq_list (st w) = [] then 0 else hd (rq_list (st w)))" "s = set_rq q (st w)"
    using assms(3) by (auto simp: pop_rq_def)
  have "0 \<notin> set (rq_list (st w))" using ring_fifo.no_null [OF rq] .
  then have "in_hand (w\<lparr>card := AtTest v, st := s\<rparr>) @ ring_list q = rq_list (st w)"
    using s(1) q(3) by (cases "rq_list (st w)") (auto simp: in_hand_def)
  then show ?thesis
    using assms(1,2) q(2) s(2) by (simp add: delivery_inv_def events_of_card_step dev_wf_def in_hand_def)
qed

lemma delivery_restore:
  assumes "delivery_inv h w" "card w = AtTest v" "v \<noteq> 0" "restore_virtine (st w) v = Some s"
    "keeps_capacity h"
  shows "delivery_inv (h @ event_of w (w\<lparr>card := AtThreshold, st := s\<rparr>)) (w\<lparr>card := AtThreshold, st := s\<rparr>)"
proof -
  from assms(1) have rq: "ring_wf (rq (fpga (st w)))" and cq: "ring_wf (cq (fpga (st w)))"
    and q: "restored h = fetched h @ cq_list (st w)" "queued h = restored h @ in_hand w @ rq_list (st w)"
    by (simp_all add: delivery_inv_def dev_wf_def)
  have "length (queued h) \<le> length (fetched h) + NUM_POSSIBLE_VIRTINES"
    using keeps_capacity_append(3) [of h "[]"] assms(5) by simp
  then have room: "length (cq_list (st w)) < NUM_POSSIBLE_VIRTINES"
    using q assms(2,3) by (simp add: in_hand_def)
  obtain r c where c: "insert_tail (cq (fpga (st w))) v = Some (r, c)" "ring_wf c"
    "ring_list c = cq_list (st w) @ [v]"
    using ring_fifo.insE [OF cq assms(3)] room by auto
  have "ring_ok c" "ring_ok (rq (fpga (st w)))" using c(2) rq by (simp_all add: ring_wf_def)
  with restore_virtine_eq [OF _ c(1)] assms(4) have "s = virtine_restored (st w) v c" by simp
  then show ?thesis
    using assms(1-3) c q by (simp add: delivery_inv_def events_of_card_step dev_wf_def in_hand_def)
qed

lemma delivery_locked:
  assumes "delivery_inv h w" "cpu w = Locked op" "mmio_step (st w) op = Some s"
    "keeps_capacity (h @ event_of w (w\<lparr>cpu := Leaving, lock := None, st := s\<rparr>))"
  shows "delivery_inv (h @ event_of w (w\<lparr>cpu := Leaving, lock := None, st := s\<rparr>))
    (w\<lparr>cpu := Leaving, lock := None, st := s\<rparr>)"
proof -
  from assms(1,2) have rq: "ring_wf (rq (fpga (st w)))" and cq: "ring_wf (cq (fpga (st w)))"
    and op: "needs_lock op"
    and inv: "restored h = fetched h @ cq_list (st w)" "queued h = restored h @ in_hand w @ rq_list (st w)"
    by (simp_all add: delivery_inv_def dev_wf_def)
  note cap = keeps_capacity_append(2,3) [OF assms(4)]
  from op show ?thesis
  proof (cases rule: needs_lock_cases)
    case pop
    obtain q where q: "pop_head (cq (fpga (st w))) =
        Some (if cq_list (st w) = [] then 0 else hd (cq_list (st w)), q)" "ring_wf q" "ring_list q = tl (cq_list (st w))"
      using ring_fifo.popE [OF cq] .
    have "0 \<notin> set (cq_list (st w))" using ring_fifo.no_null [OF cq] .
    moreover have "split_return s = (if cq_list (st w) = [] then 0 else hd (cq_list (st w)))"
      "cq (fpga s) = q" "rq (fpga s) = rq (fpga (st w))"
      using assms(3) q(1) unfolding pop by (auto simp: dev_simps)
    ultimately show ?thesis
      using assms(2) pop inv q(2,3) rq
      by (cases "cq_list (st w)") (auto simp: delivery_inv_def events_of_cpu_step dev_wf_def in_hand_def)
  next
    case (push x)
    let ?v = "push_bit 32 x OR split_write (st w)"
    have ev: "event_of w (w\<lparr>cpu := Leaving, lock := None, st := s\<rparr>) = [Queued ?v]"
      using assms(2) push by (simp add: events_of_cpu_step)
    have v: "?v \<noteq> 0" and room: "length (rq_list (st w)) < NUM_POSSIBLE_VIRTINES"
      using cap inv unfolding ev by auto
    obtain r q where q: "insert_tail (rq (fpga (st w))) ?v = Some (r, q)" "ring_wf q"
      "ring_list q = rq_list (st w) @ [?v]"
      using ring_fifo.insE [OF rq v] room by auto
    have "rq (fpga s) = q" "cq (fpga s) = cq (fpga (st w))"
      using assms(3) q(1) unfolding push by (auto simp: dev_simps Let_def)
    then show ?thesis
      unfolding ev using assms(2) inv q(2,3) cq by (simp add: delivery_inv_def dev_wf_def in_hand_def)
  qed
qed

lemma delivery_step:
  assumes "step spur w w'" "delivery_inv h w" "keeps_capacity (h @ event_of w w')"
  shows "delivery_inv (h @ event_of w w') w'"
  using assms(1)
proof (cases rule: step.cases)
  case (card_pop v s)
  with delivery_pop [OF assms(2)] show ?thesis by simp
next
  case (card_restore v s)
  with delivery_restore [OF assms(2)] keeps_capacity_append(1) [OF assms(3)] show ?thesis by simp
next
  case (cpu_locked op s)
  with delivery_locked [OF assms(2)] assms(3) show ?thesis by simp
next
  case (cpu_plain op s)
  with plain_mmio_frame [of "st w" op s] assms(2) show ?thesis
    by (intro delivery_frame) (auto simp: events_of_cpu_step in_hand_def delivery_inv_def split: if_splits)
qed (use assms(2) in \<open>intro delivery_frame;
      auto simp: event_of_def in_hand_def delivery_inv_def signalled_def split: card_pc.splits cpu_pc.splits\<close>)+

lemma traced_delivery:
  assumes "traced spur s h w" "dev_wf s" "rq_list s = []" "cq_list s = []" "keeps_capacity h"
  shows "delivery_inv h w"
  using assms(1,5)
proof (induction rule: traced.induct)
  case traced_start
  then show ?case using assms(2-4) by (simp add: delivery_inv_def start_world_def in_hand_def)
next
  case (traced_step h w w')
  from traced_step.IH keeps_capacity_append(1) [OF traced_step.prems] have "delivery_inv h w" .
  from delivery_step [OF traced_step.hyps(2) this traced_step.prems] show ?case .
qed

lemma traced_run:
  assumes "traced spur s h w" "step spur w w'" "event_of w w' = e"
  shows "traced spur s (h @ e) w'"
  using traced_step [OF assms(1,2)] assms(3) by simp

text \<open>A guest that has queued one address.\<close>

lemma example_trace:
  "\<exists>w. traced False example_device [Queued 0x9A] w \<and> cpu w = Idle \<and> \<not> stopping (fpga (st w))"
proof -
  let ?s = example_device
  let ?at = "\<lambda>c b l s. \<lparr>st = s, card = AtLock, cpu = c, lock = l, bql = b\<rparr>"
  let ?lo = "WriteReg RQ_TAIL_OFFSET_REG 0x9A" and ?hi = "WriteReg (RQ_TAIL_OFFSET_REG + 4) 0"
  let ?s1 = "?s\<lparr>split_write := 0x9A\<rparr>"
  have rq: "ring_wf (rq (fpga ?s))" using example_device_wf(1) by (simp add: dev_wf_def)
  obtain r q where q: "insert_tail (rq (fpga ?s)) 0x9A = Some (r, q)"
    using ring_fifo.ins_law [OF rq, of "0x9A"] by auto
  let ?s2 = "(set_rq q (call [MutexLock, MutexUnlock] ?s1))\<lparr>split_write := 0x9A\<rparr>"
  have m: "mmio_step ?s ?lo = Some ?s1" "mmio_step ?s1 ?hi = Some ?s2"
    using q by (simp_all add: dev_simps Let_def)
  have n: "\<not> needs_lock ?lo" "\<not> rings ?lo" "needs_lock ?hi" by (simp_all add: guest_op_simps)
  note ev = event_of_def
  have "traced False ?s [] (?at Idle None None ?s)"
    using traced_start [of False ?s] by (simp add: start_world_def)
  from traced_run [OF this cpu_enter [of _ _ ?lo], of "[]"]
  have "traced False ?s [] (?at (Handling ?lo) (Some Cpu) None ?s)" by (simp add: ev)
  from traced_run [OF this cpu_plain [of _ ?lo ?s1], of "[]"] m(1) n(1,2)
  have "traced False ?s [] (?at Leaving (Some Cpu) None ?s1)" by (simp add: ev)
  from traced_run [OF this cpu_leave, of "[]"]
  have "traced False ?s [] (?at Idle None None ?s1)" by (simp add: ev)
  from traced_run [OF this cpu_enter [of _ _ ?hi], of "[]"]
  have "traced False ?s [] (?at (Handling ?hi) (Some Cpu) None ?s1)" by (simp add: ev)
  from traced_run [OF this cpu_lock [of _ ?hi], of "[]"] n(3)
  have "traced False ?s [] (?at (Locked ?hi) (Some Cpu) (Some Cpu) ?s1)" by (simp add: ev)
  from traced_run [OF this cpu_locked [of _ ?hi ?s2], of "[Queued 0x9A]"] m(2)
  have "traced False ?s [Queued 0x9A] (?at Leaving (Some Cpu) None ?s2)" by (simp add: ev)
  from traced_run [OF this cpu_leave, of "[]"]
  have "traced False ?s [Queued 0x9A] (?at Idle None None ?s2)" by (simp add: ev)
  moreover have "\<not> stopping (fpga ?s2)"
    by (simp add: created_def virtine_fpga_realize_def Let_def)
  ultimately show ?thesis by (intro exI conjI) (assumption, simp_all)
qed

lemma example_keeps_capacity: "keeps_capacity [Queued 0x9A]"
  by (auto simp: keeps_capacity_def NUM_POSSIBLE_VIRTINES_def le_Suc_eq)

subsection \<open>The property\<close>

text \<open>
  C3. Every virtine queued is delivered once, in order, and only after it was restored: in every run of
  the two threads from an idle device in which the guest keeps at most 100 addresses out and queues
  no null address, the addresses fetched so far, those in the completed queue, the one the
  co-processor holds and those in the ready queue are, one after the other, exactly the addresses
  queued; and the restored ones are exactly the fetched and the completed ones.
\<close>

theorem exactly_once_in_order:
  assumes "traced spur s h w" "dev_wf s" "rq_list s = []" "cq_list s = []" "keeps_capacity h"
  shows "queued h = fetched h @ cq_list (st w) @ in_hand w @ rq_list (st w) \<and>
    restored h = fetched h @ cq_list (st w)"
  using traced_delivery [OF assms] by (simp add: delivery_inv_def)

theorem exactly_once_in_order_witness:
  "\<exists>w. traced False example_device [Queued 0x9A] w \<and>
    [0x9A] = fetched [Queued 0x9A] @ cq_list (st w) @ in_hand w @ rq_list (st w)"
proof -
  obtain w where t: "traced False example_device [Queued 0x9A] w" using example_trace by blast
  from exactly_once_in_order [OF t example_device_wf example_keeps_capacity] t show ?thesis by auto
qed

end
