(* ===== verification/Liveness.thy ===== *)
theory Liveness
  imports Delivery
begin

section \<open>The co-processor comes to rest, and everything can be delivered\<close>

text \<open>
  What happens when the guest keeps quiet: the steps of the co-processor alone decrease a measure,
  so it comes to rest after finitely many of them, asleep with the processing lock free; and a
  guest that then rings the doorbell and reads the completed queue gets back everything it queued.
  Spurious wake-ups, which could go on for ever, are left out of these runs (\<open>step False\<close>).
\<close>

subsection \<open>Runs with their events\<close>

inductive runs :: "world \<Rightarrow> event list \<Rightarrow> world \<Rightarrow> bool" where
  runs_refl: "runs w [] w"
| runs_step: "runs w es w' \<Longrightarrow> step False w' w'' \<Longrightarrow> runs w (es @ event_of w' w'') w''"

lemma step_mono: "step False w w' \<Longrightarrow> step spur w w'"
  by (erule step.cases; hypsubst; (rule step.intros; assumption | erule FalseE))

lemma runs_traced: "runs w es w' \<Longrightarrow> traced spur s h w \<Longrightarrow> traced spur s (h @ es) w'"
proof (induction rule: runs.induct)
  case (runs_step w es w' w'')
  from traced_step [OF runs_step.IH [OF runs_step.prems] step_mono [OF runs_step.hyps(2)]]
  show ?case by simp
qed simp

lemma runs_one: "step False w w' \<Longrightarrow> event_of w w' = e \<Longrightarrow> runs w e w'"
  using runs_step [OF runs_refl, of w w'] by simp

lemma runs_trans:
  assumes "runs w es w'" "runs w' es' w''"
  shows "runs w (es @ es') w''"
  using assms(2,1)
proof (induction rule: runs.induct)
  case (runs_step w1 es1 w2 w3)
  from runs.runs_step [OF runs_step.IH [OF runs_step.prems] runs_step.hyps(2)] show ?case by simp
qed simp

subsection \<open>A measure for the co-processor\<close>

text \<open>Every step of the other thread changes its program point.\<close>

definition card_step :: "world \<Rightarrow> world \<Rightarrow> bool" where
  "card_step w w' \<longleftrightarrow> step False w w' \<and> cpu w' = cpu w"

definition phase :: "world \<Rightarrow> nat" where
  "phase w = (case card w of
     AtLock \<Rightarrow> (if doorbell (fpga (st w)) then 2 else 0)
   | Woken \<Rightarrow> (if doorbell (fpga (st w)) then 2 else 0)
   | AtGuard \<Rightarrow> (if doorbell (fpga (st w)) then 2 else 0)
   | AtStop \<Rightarrow> 2 | AtClear \<Rightarrow> 2
   | AtWait \<Rightarrow> 0 | Asleep \<Rightarrow> 0 | Gone \<Rightarrow> 0
   | _ \<Rightarrow> (if doorbell (fpga (st w)) then 3 else 1))"

fun rank :: "card_pc \<Rightarrow> nat" where
  "rank (AtTest v) = (if v = 0 then 3 else 8)"
| "rank AtThreshold = 7"
| "rank AtIrq = 6"
| "rank AtNotify = 5"
| "rank AtPop = 4"
| "rank AtUnlock = 2"
| "rank AtLock = 5"
| "rank Woken = 5"
| "rank AtGuard = 4"
| "rank AtStop = 3"
| "rank AtClear = 2"
| "rank AtWait = 1"
| "rank Asleep = 0"
| "rank Gone = 0"

definition work_left :: "world \<Rightarrow> nat" where
  "work_left w = phase w * 2000 + length (rq_list (st w)) * 12 + rank (card w)"

text \<open>The co-processor has nothing to do, or has not yet looked.\<close>

definition drained :: "world \<Rightarrow> bool" where
  "drained w \<longleftrightarrow> (card w \<in> {AtTest 0, AtUnlock, AtWait, Asleep} \<or>
     card w \<in> {AtLock, Woken, AtGuard} \<and> \<not> doorbell (fpga (st w)) \<longrightarrow> rq_list (st w) = [])"

lemma rank_bound: "rank p \<le> 8"
  by (cases p) auto

lemma doorbell_simps [simp]:
  "doorbell (fpga (virtine_restored s v q)) = doorbell (fpga s)"
  "doorbell (fpga (set_processing s)) = doorbell (fpga s)"
  "doorbell (fpga (clear_doorbell s)) = False"
  "doorbell (fpga (reset_cleaned s)) = doorbell (fpga s)"
  by (simp_all add: virtine_restored_def set_processing_def clear_doorbell_def reset_cleaned_def)

lemma pop_rq_wf:
  assumes "dev_wf s" "pop_rq s = Some (v, s')"
  shows "dev_wf s'" "v = (if rq_list s = [] then 0 else hd (rq_list s))" "rq_list s' = tl (rq_list s)"
    "v = 0 \<longleftrightarrow> rq_list s = []" "doorbell (fpga s') = doorbell (fpga s)" "cq_list s' = cq_list s"
    "stopping (fpga s') = stopping (fpga s)"
proof -
  from assms(1) have rq: "ring_wf (rq (fpga s))" by (simp add: dev_wf_def)
  obtain q where q: "pop_head (rq (fpga s)) =
      Some (if rq_list s = [] then 0 else hd (rq_list s), q)" "ring_wf q" "ring_list q = tl (rq_list s)"
    using ring_fifo.popE [OF rq] .
  then have s: "v = (if rq_list s = [] then 0 else hd (rq_list s))" "s' = set_rq q s"
    using assms(2) by (auto simp: pop_rq_def)
  have "0 \<notin> set (rq_list s)" using ring_fifo.no_null [OF rq] .
  then show "v = 0 \<longleftrightarrow> rq_list s = []" using s(1) by (cases "rq_list s") auto
  show "dev_wf s'" "rq_list s' = tl (rq_list s)" "doorbell (fpga s') = doorbell (fpga s)"
    "v = (if rq_list s = [] then 0 else hd (rq_list s))" "cq_list s' = cq_list s"
    "stopping (fpga s') = stopping (fpga s)"
    using s q(2,3) assms(1) by (simp_all add: dev_wf_def)
qed

lemma restore_virtine_wf:
  assumes "dev_wf s" "v \<noteq> 0" "restore_virtine s v = Some s'"
  shows "dev_wf s'" "rq_list s' = rq_list s" "doorbell (fpga s') = doorbell (fpga s)"
    "stopping (fpga s') = stopping (fpga s)"
proof -
  from assms(1) have rq: "ring_ok (rq (fpga s))" and cq: "ring_wf (cq (fpga s))"
    by (simp_all add: dev_wf_def ring_wf_def)
  obtain r q where q: "insert_tail (cq (fpga s)) v = Some (r, q)" "ring_wf q"
    using ring_fifo.insE [OF cq assms(2)] by metis
  then have "s' = virtine_restored s v q"
    using restore_virtine_eq [OF rq q(1)] assms(3) by (simp add: ring_wf_def)
  with q(2) assms(1) show "dev_wf s'" "rq_list s' = rq_list s" "doorbell (fpga s') = doorbell (fpga s)"
    "stopping (fpga s') = stopping (fpga s)" by (simp_all add: dev_wf_def)
qed

lemma card_step_works:
  assumes "card_step w w'" "dev_wf (st w)" "\<not> stopping (fpga (st w))"
  shows "dev_wf (st w') \<and> \<not> stopping (fpga (st w')) \<and> work_left w' < work_left w \<and> (drained w \<longrightarrow> drained w') \<and>
    card w' \<noteq> Gone \<and> queued (event_of w w') = [] \<and> fetched (event_of w w') = []"
proof -
  from assms(1) have s: "step False w w'" and c: "cpu w' = cpu w" by (simp_all add: card_step_def)
  have ev: "event_of w w' = (case card w of AtTest v \<Rightarrow> if card w' = AtThreshold then [Restored v] else [] | _ \<Rightarrow> [])"
    using c by (rule events_of_card_step)
  have quiet: "queued (event_of w w') = []" "fetched (event_of w w') = []"
    unfolding ev by (auto split: card_pc.split)
  have bound: "length (rq_list (st w)) \<le> 100"
    using assms(2) ring_fifo.bounded by (fastforce simp: dev_wf_def NUM_POSSIBLE_VIRTINES_def)
  note defs = work_left_def phase_def drained_def
  from s have "dev_wf (st w') \<and> \<not> stopping (fpga (st w')) \<and> work_left w' < work_left w \<and>
    (drained w \<longrightarrow> drained w') \<and> card w' \<noteq> Gone"
  proof (cases rule: step.cases)
    case (card_pop v t)
    note p = pop_rq_wf [OF assms(2) card_pop(3)]
    show ?thesis
      using card_pop p(1,3,4,5,7) assms(3) by (cases "rq_list (st w)") (auto simp: defs)
  next
    case (card_restore v t)
    note r = restore_virtine_wf [OF assms(2) card_restore(3,4)]
    show ?thesis using card_restore r assms(3) by (auto simp: defs)
  next
    case card_clear
    then show ?thesis using assms(2,3) bound by (auto simp: defs dev_wf_def)
  qed (use c assms(2,3) bound in \<open>auto simp: defs dev_wf_def split: if_splits\<close>)
  with quiet show ?thesis by blast
qed

lemma card_progress:
  assumes "lock_inv w" "dev_wf (st w)" "cpu w = Idle" "card w \<notin> {Asleep, Gone}"
  shows "\<exists>w'. card_step w w'"
proof -
  from assms(1,3) have bql: "card w = AtIrq \<Longrightarrow> bql w = None"
    using holder_cases [of "bql w"] by (auto simp: lock_inv_def)
  from assms(1,3) have lock: "card w \<in> {AtLock, Woken} \<Longrightarrow> lock w = None"
    using holder_cases [of "lock w"] by (auto simp: lock_inv_def)
  have "\<exists>w'. step False w w' \<and> cpu w' = cpu w"
  proof (cases "card w")
    case AtGuard
    then show ?thesis
      using card_guard_wait [of w] card_guard_go [of w] by (cases "doorbell (fpga (st w)) \<or> stopping (fpga (st w))") force+
  next
    case AtStop
    then show ?thesis using card_exit [of w] card_begin [of w] by (cases "stopping (fpga (st w))") force+
  next
    case AtPop
    have "ring_wf (rq (fpga (st w)))" using assms(2) by (simp add: dev_wf_def)
    then obtain v t where "pop_rq (st w) = Some (v, t)"
      using ring_fifo.pop_law [of "rq (fpga (st w))"] by (auto simp: pop_rq_def)
    from card_pop [OF AtPop this, of False] show ?thesis by force
  next
    case (AtTest v)
    show ?thesis
    proof (cases "v = 0")
      case True
      with card_done [of w False] AtTest show ?thesis by force
    next
      case False
      from assms(2) have rq: "ring_ok (rq (fpga (st w)))" and cq: "ring_wf (cq (fpga (st w)))"
        by (simp_all add: dev_wf_def ring_wf_def)
      obtain r q where "insert_tail (cq (fpga (st w))) v = Some (r, q)" "ring_wf q"
        using ring_fifo.insE [OF cq False] by metis
      then have "restore_virtine (st w) v = Some (virtine_restored (st w) v q)"
        by (intro restore_virtine_eq [OF rq]) (simp_all add: ring_wf_def)
      from card_restore [OF AtTest False this, of False] show ?thesis by force
    qed
  next
    case AtThreshold
    then show ?thesis using card_below [of w] card_reached [of w] by (cases "batch_reached (st w)") force+
  next
    case AtLock
    from card_lock [OF AtLock lock, of False] AtLock show ?thesis by force
  next
    case AtWait
    from card_wait [OF AtWait, of False] show ?thesis by force
  next
    case Woken
    from card_wake [OF Woken lock, of False] Woken show ?thesis by force
  next
    case AtClear
    from card_clear [OF AtClear, of False] show ?thesis by force
  next
    case AtIrq
    from card_bql [OF AtIrq bql [OF AtIrq], of False] show ?thesis by force
  next
    case AtNotify
    from card_notify [OF AtNotify, of False] show ?thesis by force
  next
    case AtUnlock
    from card_unlock [OF AtUnlock, of False] show ?thesis by force
  qed (use assms(4) in auto)
  then show ?thesis by (simp add: card_step_def)
qed

text \<open>The guest is quiet and the co-processor alive.\<close>

definition quiet :: "world \<Rightarrow> bool" where
  "quiet w \<longleftrightarrow> lock_inv w \<and> dev_wf (st w) \<and> \<not> stopping (fpga (st w)) \<and> cpu w = Idle \<and> card w \<noteq> Gone"

lemma quiet_step: "quiet w \<Longrightarrow> card_step w w' \<Longrightarrow> quiet w'"
  using card_step_works lock_inv_step unfolding quiet_def card_step_def by metis

lemma comes_to_rest:
  assumes "quiet w"
  shows "\<exists>es w'. runs w es w' \<and> quiet w' \<and> card w' = Asleep \<and> queued es = [] \<and> fetched es = [] \<and>
    (drained w \<longrightarrow> rq_list (st w') = [])"
  using assms
proof (induction "work_left w" arbitrary: w rule: less_induct)
  case less
  show ?case
  proof (cases "card w = Asleep")
    case True
    then show ?thesis using less.prems runs_refl [of w] by (force simp: drained_def)
  next
    case False
    then obtain w1 where w1: "card_step w w1"
      using card_progress [of w] less.prems by (auto simp: quiet_def)
    have works: "work_left w1 < work_left w" "drained w \<longrightarrow> drained w1"
      "queued (event_of w w1) = []" "fetched (event_of w w1) = []"
      using card_step_works [OF w1] less.prems by (auto simp: quiet_def)
    from less.hyps [OF works(1) quiet_step [OF less.prems w1]] obtain es w' where
      r: "runs w1 es w'" "quiet w'" "card w' = Asleep" "queued es = []" "fetched es = []"
      "drained w1 \<longrightarrow> rq_list (st w') = []" by blast
    have "runs w (event_of w w1 @ es) w'"
      using runs_trans [OF runs_one r(1)] w1 by (simp add: card_step_def)
    with r works show ?thesis by (intro exI [of _ "event_of w w1 @ es"] exI [of _ w']) simp
  qed
qed

subsection \<open>The guest rings, then reads\<close>

abbreviation at_rest :: "qemu_state \<Rightarrow> world" where
  "at_rest s \<equiv> \<lparr>st = s, card = Asleep, cpu = Idle, lock = None, bql = None\<rparr>"

lemma asleep_at_rest:
  assumes "quiet w" "card w = Asleep"
  shows "w = at_rest (st w)"
proof -
  have "lock w = None" "bql w = None"
    using assms holder_cases [of "lock w"] holder_cases [of "bql w"] by (auto simp: quiet_def lock_inv_def)
  with assms show ?thesis by (cases w) (simp add: quiet_def)
qed

lemma quiet_at_rest: "quiet (at_rest s) \<longleftrightarrow> dev_wf s \<and> \<not> stopping (fpga s)"
  by (simp add: quiet_def lock_inv_def)

lemma ring_wakes:
  assumes "quiet (at_rest s)"
  shows "\<exists>w. runs (at_rest s) [] w \<and> quiet w \<and> drained w"
proof -
  let ?op = "WriteReg DOORBELL_REG 1"
  let ?at = "\<lambda>k c b s. \<lparr>st = s, card = k, cpu = c, lock = None, bql = b\<rparr>"
  let ?s = "call [CondSignal] (s\<lparr>fpga := (fpga s)\<lparr>doorbell := True\<rparr>\<rparr>)"
  have op: "\<not> needs_lock ?op" "rings ?op" by (simp_all add: guest_op_simps)
  have s: "mmio_step s ?op = Some ?s" by (simp add: dev_simps)
  have "runs (at_rest s) [] (?at Asleep (Handling ?op) (Some Cpu) s)"
    using cpu_enter [of "at_rest s" False ?op] by (intro runs_one) (simp_all add: event_of_def)
  moreover have "runs (?at Asleep (Handling ?op) (Some Cpu) s) [] (?at Asleep Signalling (Some Cpu) ?s)"
    using cpu_plain [of "?at Asleep (Handling ?op) (Some Cpu) s" ?op ?s False] op s
    by (intro runs_one) (simp_all add: event_of_def)
  moreover have "runs (?at Asleep Signalling (Some Cpu) ?s) [] (?at Woken Leaving (Some Cpu) ?s)"
    using cpu_signal [of "?at Asleep Signalling (Some Cpu) ?s" False]
    by (intro runs_one) (simp_all add: event_of_def signalled_def)
  moreover have "runs (?at Woken Leaving (Some Cpu) ?s) [] (?at Woken Idle None ?s)"
    using cpu_leave [of "?at Woken Leaving (Some Cpu) ?s" False]
    by (intro runs_one) (simp_all add: event_of_def)
  ultimately have "runs (at_rest s) [] (?at Woken Idle None ?s)"
    using runs_trans by (metis append_Nil)
  moreover have "quiet (?at Woken Idle None ?s)"
    using assms by (simp add: quiet_def lock_inv_def dev_wf_def)
  moreover have "drained (?at Woken Idle None ?s)" by (simp add: drained_def)
  ultimately show ?thesis by blast
qed

lemma guest_fetches:
  assumes "quiet (at_rest s)" "cq_list s = v # vs"
  shows "\<exists>s'. runs (at_rest s) [Fetched v] (at_rest s') \<and> quiet (at_rest s') \<and> cq_list s' = vs \<and>
    rq_list s' = rq_list s"
proof -
  let ?op = "ReadReg CQ_HEAD_OFFSET_REG"
  let ?at = "\<lambda>c l b s. \<lparr>st = s, card = Asleep, cpu = c, lock = l, bql = b\<rparr>"
  from assms(1) have wf: "dev_wf s" "\<not> stopping (fpga s)" by (simp_all add: quiet_at_rest)
  then have cq: "ring_wf (cq (fpga s))" by (simp add: dev_wf_def)
  obtain q where q: "pop_head (cq (fpga s)) = Some (v, q)" "ring_wf q" "ring_list q = vs"
    using ring_fifo.pop_law [OF cq] assms(2) by auto
  obtain s' where s': "mmio_step s ?op = Some s'" "split_return s' = v" "cq (fpga s') = q" "rq (fpga s') = rq (fpga s)"
    "stopping (fpga s') = stopping (fpga s)"
    using q(1) by (simp add: dev_simps)
  have lk: "needs_lock ?op" by (simp add: needs_lock_def)
  have "runs (at_rest s) [] (?at (Handling ?op) None (Some Cpu) s)"
    using cpu_enter [of "at_rest s" False ?op] by (intro runs_one) (simp_all add: event_of_def)
  moreover have "runs (?at (Handling ?op) None (Some Cpu) s) [] (?at (Locked ?op) (Some Cpu) (Some Cpu) s)"
    using cpu_lock [of "?at (Handling ?op) None (Some Cpu) s" ?op False] lk
    by (intro runs_one) (simp_all add: event_of_def)
  moreover have "runs (?at (Locked ?op) (Some Cpu) (Some Cpu) s) [Fetched v] (?at Leaving None (Some Cpu) s')"
    using cpu_locked [of "?at (Locked ?op) (Some Cpu) (Some Cpu) s" ?op s' False] s'(1,2)
    by (intro runs_one) (simp_all add: event_of_def)
  moreover have "runs (?at Leaving None (Some Cpu) s') [] (at_rest s')"
    using cpu_leave [of "?at Leaving None (Some Cpu) s'" False] by (intro runs_one) (simp_all add: event_of_def)
  ultimately have "runs (at_rest s) [Fetched v] (at_rest s')"
    using runs_trans by (metis append_Nil append_Nil2)
  moreover have "quiet (at_rest s')" using s' q(2) wf by (simp add: quiet_at_rest dev_wf_def)
  ultimately show ?thesis using s'(3,4) q(3) by auto
qed

lemma guest_fetches_all:
  assumes "quiet (at_rest s)"
  shows "\<exists>es s'. runs (at_rest s) es (at_rest s') \<and> quiet (at_rest s') \<and> queued es = [] \<and>
    cq_list s' = [] \<and> rq_list s' = rq_list s"
  using assms
proof (induction "cq_list s" arbitrary: s)
  case Nil
  then show ?case using runs_refl [of "at_rest s"] by (intro exI [of _ "[]"] exI [of _ s]) simp
next
  case (Cons v vs)
  from guest_fetches [OF Cons.prems Cons.hyps(2) [symmetric]] obtain s1 where
    s1: "runs (at_rest s) [Fetched v] (at_rest s1)" "quiet (at_rest s1)" "cq_list s1 = vs" "rq_list s1 = rq_list s"
    by blast
  from Cons.hyps(1) [OF s1(3) [symmetric] s1(2)] obtain es s' where
    "runs (at_rest s1) es (at_rest s')" "quiet (at_rest s')" "queued es = []" "cq_list s' = []"
    "rq_list s' = rq_list s1" by blast
  with runs_trans [OF s1(1)] s1(4) show ?case
    by (intro exI [of _ "Fetched v # es"] exI [of _ s']) fastforce
qed

lemma keeps_capacity_quiet:
  assumes "keeps_capacity h" "queued es = []"
  shows "keeps_capacity (h @ es)"
proof -
  have "length (queued (take k (h @ es))) \<le> length (fetched (take k (h @ es))) + NUM_POSSIBLE_VIRTINES" for k
  proof (cases "k \<le> length h")
    case True
    with assms(1) show ?thesis by (simp add: keeps_capacity_def)
  next
    case False
    have "queued (take n es) = []" for n
      using assms(2) history_append(1) [of "take n es" "drop n es"] by simp
    moreover from assms(1) have "length (queued h) \<le> length (fetched h) + NUM_POSSIBLE_VIRTINES"
      using keeps_capacity_append(3) [of h "[]"] by simp
    ultimately show ?thesis using False by simp
  qed
  with assms show ?thesis by (simp add: keeps_capacity_def)
qed

lemma gone_stopping:
  assumes "reachable spur s w" "dev_wf s" "cq_list s = []"
  shows "card w = Gone \<longrightarrow> stopping (fpga (st w))"
  using assms(1)
proof induction
  case (reach_step w w')
  have "restored_inv (st w)"
    using reachable_inv [OF reach_step.hyps(1) assms(2,3)] by (simp add: world_inv_def)
  from device_step [OF reach_step.hyps(2) this] reach_step.IH
  have keep: "card w = Gone \<longrightarrow> stopping (fpga (st w'))"
    "stopping (fpga (st w)) \<longrightarrow> stopping (fpga (st w'))" by auto
  from reach_step.hyps(2) show ?case
  proof (cases rule: step.cases)
    case card_exit
    with keep show ?thesis by simp
  qed (use keep in \<open>auto simp: signalled_def split: if_splits\<close>)
qed simp

lemma quiet_traced:
  assumes "traced spur s h w" "dev_wf s" "rq_list s = []" "cq_list s = []" "keeps_capacity h"
    "cpu w = Idle" "\<not> stopping (fpga (st w))"
  shows "quiet w"
proof -
  note r = traced_reachable [OF assms(1)]
  have "lock_inv w" using reachable_inv [OF r assms(2,4)] by (simp add: world_inv_def)
  moreover have "dev_wf (st w)" using traced_delivery [OF assms(1-5)] by (simp add: delivery_inv_def)
  moreover have "card w \<noteq> Gone" using gone_stopping [OF r assms(2,4)] assms(7) by blast
  ultimately show ?thesis using assms(6,7) by (simp add: quiet_def)
qed

lemma work_left_bound:
  assumes "dev_wf (st w)"
  shows "work_left w \<le> 7208"
proof -
  have "length (rq_list (st w)) \<le> 100"
    using assms ring_fifo.bounded by (fastforce simp: dev_wf_def NUM_POSSIBLE_VIRTINES_def)
  moreover have "phase w \<le> 3" by (simp add: phase_def split: card_pc.split)
  ultimately show ?thesis using rank_bound [of "card w"] by (simp add: work_left_def)
qed

lemma card_steps_bounded:
  assumes "(card_step ^^ n) w w'" "quiet w"
  shows "quiet w' \<and> n + work_left w' \<le> work_left w"
  using assms
proof (induction n arbitrary: w')
  case (Suc n)
  from Suc.prems(1) obtain w1 where w1: "(card_step ^^ n) w w1" "card_step w1 w'" by auto
  with Suc.IH Suc.prems(2) have q: "quiet w1" "n + work_left w1 \<le> work_left w" by blast+
  have "work_left w' < work_left w1" using card_step_works [OF w1(2)] q(1) by (auto simp: quiet_def)
  with q quiet_step [OF q(1) w1(2)] show ?case by simp
qed simp

subsection \<open>The properties\<close>

text \<open>
  C5. A guest that goes quiet gets a co-processor at rest: from every state reached with the capacity
  kept in which no handler runs and the device is not being shut down, the co-processor can make
  at most 7208 further steps on its own, whatever it was doing, and where it can make no more
  it sleeps, with both locks free.
\<close>

theorem coprocessor_comes_to_rest:
  assumes "traced spur s h w" "dev_wf s" "rq_list s = []" "cq_list s = []" "keeps_capacity h"
    "cpu w = Idle" "\<not> stopping (fpga (st w))" "(card_step ^^ n) w w'"
  shows "n \<le> 7208 \<and> (card w' = Asleep \<and> lock w' = None \<and> bql w' = None \<or> (\<exists>w''. card_step w' w''))"
proof -
  note q = quiet_traced [OF assms(1-7)]
  from card_steps_bounded [OF assms(8) q] work_left_bound [of w] q
  have w': "quiet w'" "n \<le> 7208" by (auto simp: quiet_def)
  show ?thesis
  proof (cases "card w' = Asleep")
    case True
    with asleep_at_rest [OF w'(1)] w'(2) show ?thesis by (metis world.select_convs(4,5))
  next
    case False
    with card_progress [of w'] w' show ?thesis by (auto simp: quiet_def)
  qed
qed

theorem coprocessor_comes_to_rest_witness:
  "\<exists>w'. (card_step ^^ 1) (start_world example_device) w' \<and> (\<exists>w''. card_step w' w'')"
proof -
  let ?w = "start_world example_device"
  have t: "traced False example_device [] ?w" by (rule traced_start)
  have c: "keeps_capacity []" by (simp add: keeps_capacity_def)
  have idle: "cpu ?w = Idle" and run: "\<not> stopping (fpga (st ?w))" by (simp_all add: created_def virtine_fpga_realize_def Let_def)
  have "lock_inv ?w" by (simp add: lock_inv_def)
  with card_progress [of ?w] example_device_wf(1) obtain w' where w': "card_step ?w w'" by auto
  then have "(card_step ^^ 1) ?w w'" by (simp only: relpowp_1)
  moreover from w' have "card w' = AtGuard"
    unfolding card_step_def by (auto elim!: step.cases)
  ultimately show ?thesis
    using coprocessor_comes_to_rest [OF t example_device_wf c idle run, of 1 w'] by auto
qed

text \<open>
  C4. Whatever was queued can be delivered: from every state reached with the capacity kept in which no
  handler runs and the device is not being shut down, however the threads got there, a run that
  queues nothing more leads to a state in which every address ever queued has been restored and
  fetched, once and in order.
\<close>

theorem everything_can_be_delivered:
  assumes "traced spur s h w" "dev_wf s" "rq_list s = []" "cq_list s = []" "keeps_capacity h"
    "cpu w = Idle" "\<not> stopping (fpga (st w))"
  shows "\<exists>es w'. traced spur s (h @ es) w' \<and> queued es = [] \<and>
    restored (h @ es) = queued h \<and> fetched (h @ es) = queued h"
proof -
  from comes_to_rest [OF quiet_traced [OF assms]] obtain es1 w1 where
    r1: "runs w es1 w1" "quiet w1" "card w1 = Asleep" "queued es1 = []" by blast
  note e1 = asleep_at_rest [OF r1(2,3)]
  from ring_wakes [of "st w1"] r1(2) e1 obtain w2 where
    r2: "runs w1 [] w2" "quiet w2" "drained w2" by metis
  from comes_to_rest [OF r2(2)] r2(3) obtain es3 w3 where
    r3: "runs w2 es3 w3" "quiet w3" "card w3 = Asleep" "queued es3 = []" "rq_list (st w3) = []" by blast
  note e3 = asleep_at_rest [OF r3(2,3)]
  from guest_fetches_all [of "st w3"] r3(2) e3 obtain es4 s4 where
    r4: "runs w3 es4 (at_rest s4)" "queued es4 = []" "cq_list s4 = []" "rq_list s4 = rq_list (st w3)" by metis
  let ?es = "es1 @ es3 @ es4"
  have "runs w ?es (at_rest s4)"
    using runs_trans [OF r1(1) runs_trans [OF r2(1) runs_trans [OF r3(1) r4(1)]]] by simp
  from runs_traced [OF this assms(1)] have t: "traced spur s (h @ ?es) (at_rest s4)" .
  have q: "queued ?es = []" using r1(4) r3(4) r4(2) by simp
  from traced_delivery [OF t assms(2-4) keeps_capacity_quiet [OF assms(5) q]]
  have "restored (h @ ?es) = fetched (h @ ?es) @ cq_list s4" "queued (h @ ?es) = restored (h @ ?es) @ rq_list s4"
    by (simp_all add: delivery_inv_def in_hand_def)
  with q r3(5) r4(3,4) t show ?thesis
    by (intro exI [of _ ?es] exI [of _ "at_rest s4"]) simp
qed

theorem everything_can_be_delivered_witness:
  "\<exists>es w'. traced False example_device (Queued 0x9A # es) w' \<and> restored es = [0x9A] \<and> fetched es = [0x9A]"
proof -
  obtain w where w: "traced False example_device [Queued 0x9A] w" "cpu w = Idle" "\<not> stopping (fpga (st w))"
    using example_trace by blast
  from everything_can_be_delivered [OF w(1) example_device_wf example_keeps_capacity w(2,3)]
  show ?thesis by auto
qed

end
