(* ===== verification/GuestMemory.thy ===== *)
theory GuestMemory
  imports Cleanup
begin

section \<open>Guest memory behind the DMA\<close>

text \<open>
  What a clean-up pass does to the memory of the guest.  Memory is a function from addresses to
  bytes.  \<open>pci_dma_write\<close> is QEMU's: it is the argument \<open>dma\<close>, and \<open>dma_copies\<close> states what it is
  documented to do, copy \<open>len\<close> bytes that the QEMU process has at \<open>src\<close> to the bus address
  \<open>target\<close>.  The snapshot is read through a pointer of the QEMU process, so it lies in
  \<open>host\<close>, not in guest memory.
\<close>

type_synonym memory = "u64 \<Rightarrow> u8"
type_synonym pci_dma_write = "memory \<Rightarrow> u64 \<Rightarrow> u64 \<Rightarrow> u64 \<Rightarrow> memory"

definition covers :: "u64 \<Rightarrow> u64 \<Rightarrow> u64 \<Rightarrow> bool" where
  "covers v len x \<longleftrightarrow> x - v < len"

definition dma_copies :: "memory \<Rightarrow> pci_dma_write \<Rightarrow> bool" where
  "dma_copies host dma \<longleftrightarrow> (\<forall>m target src len x.
     dma m target src len x = (if covers target len x then host (src + (x - target)) else m x))"

text \<open>The copies a stretch of the call log makes, in order.\<close>

definition run_dma :: "pci_dma_write \<Rightarrow> qemu_call list \<Rightarrow> memory \<Rightarrow> memory" where
  "run_dma dma cs m = fold (\<lambda>(v, a, n) m. dma m v a n) (dma_targets cs) m"

definition disjoint_virtines :: "u64 \<Rightarrow> u64 set \<Rightarrow> bool" where
  "disjoint_virtines len vs \<longleftrightarrow> (\<forall>v\<in>vs. \<forall>w\<in>vs. \<forall>x. covers v len x \<and> covers w len x \<longrightarrow> v = w)"

lemma disjoint_virtines_mono:
  "disjoint_virtines len (insert v vs) \<Longrightarrow> disjoint_virtines len vs"
  by (simp add: disjoint_virtines_def)

lemma fold_dma:
  assumes "dma_copies host dma"
  shows "(\<forall>v\<in>set vs. \<not> covers v n x) \<Longrightarrow> fold (\<lambda>v m. dma m v a n) vs m x = m x"
    "v \<in> set vs \<Longrightarrow> covers v n x \<Longrightarrow> disjoint_virtines n (set vs) \<Longrightarrow>
      fold (\<lambda>v m. dma m v a n) vs m x = host (a + (x - v))"
proof -
  have one: "dma m v a n x = (if covers v n x then host (a + (x - v)) else m x)" for m v x
    using assms by (simp add: dma_copies_def)
  show out: "fold (\<lambda>v m. dma m v a n) vs m x = m x" if "\<forall>v\<in>set vs. \<not> covers v n x" for vs m
    using that by (induction vs arbitrary: m) (simp_all add: one)
  show "fold (\<lambda>v m. dma m v a n) vs m x = host (a + (x - v))"
    if "v \<in> set vs" "covers v n x" "disjoint_virtines n (set vs)"
    using that
  proof (induction vs arbitrary: m)
    case (Cons w vs)
    show ?case
    proof (cases "v \<in> set vs")
      case True
      with Cons disjoint_virtines_mono [of n w "set vs"] show ?thesis by simp
    next
      case False
      then have "v = w" using Cons.prems(1) by simp
      have "\<not> covers u n x" if "u \<in> set vs" for u
      proof
        assume "covers u n x"
        moreover have "u \<in> set (w # vs)" using that by simp
        ultimately have "v = u" using Cons.prems unfolding disjoint_virtines_def by blast
        with that False show False by simp
      qed
      then have "fold (\<lambda>v m. dma m v a n) vs (dma m w a n) x = dma m w a n x" by (intro out) simp
      then show ?thesis using one [of m w x] Cons.prems(2) \<open>v = w\<close> by simp
    qed
  qed simp
qed

text \<open>
  C6. A clean-up pass restores the virtines: when the waiting virtines do not overlap, after the pass each
  byte of each of them equals the corresponding byte of the snapshot, and every byte of guest
  memory outside them is as before, whatever it held.
\<close>

theorem pass_restores_memory:
  assumes "dma_copies host dma" "dev_wf s"
    "disjoint_virtines (snapshot_size (fpga s)) (set (rq_list s))"
  shows "\<exists>s' tr. clean_pass s = Some s' \<and> calls s' = calls s @ tr \<and>
    (\<forall>v\<in>set (rq_list s). \<forall>x. covers v (snapshot_size (fpga s)) x \<longrightarrow>
       run_dma dma tr m x = host (snapshot_addr (fpga s) + (x - v))) \<and>
    (\<forall>x. (\<forall>v\<in>set (rq_list s). \<not> covers v (snapshot_size (fpga s)) x) \<longrightarrow> run_dma dma tr m x = m x)"
proof -
  obtain s' tr where s': "clean_pass s = Some s'" "calls s' = calls s @ tr"
    "dma_targets tr = map (\<lambda>v. (v, snapshot_addr (fpga s), snapshot_size (fpga s))) (rq_list s)"
    using clean_pass_moves [OF assms(2)] by blast
  have "run_dma dma tr m = fold (\<lambda>v m. dma m v (snapshot_addr (fpga s)) (snapshot_size (fpga s))) (rq_list s) m"
    unfolding run_dma_def s'(3) by (simp add: fold_map comp_def)
  with s'(1,2) fold_dma [OF assms(1)] assms(3) show ?thesis
    by (intro exI [of _ s'] exI [of _ tr]) simp
qed

definition plain_copy :: "memory \<Rightarrow> pci_dma_write" where
  "plain_copy host m target src len = (\<lambda>x. if x - target < len then host (src + (x - target)) else m x)"

theorem pass_restores_memory_witness:
  "\<exists>s s' tr. rq_list s = [0x1000, 0x2000] \<and> clean_pass s = Some s' \<and> calls s' = calls s @ tr \<and>
    run_dma (plain_copy (\<lambda>x. ucast x)) tr (\<lambda>x. 0xFF) 0x2003 = 3 \<and>
    run_dma (plain_copy (\<lambda>x. ucast x)) tr (\<lambda>x. 0xFF) 0x2008 = 0xFF"
proof -
  obtain s where s: "dev_wf s" "rq_list s = [0x1000, 0x2000]"
    "snapshot_size (fpga s) = 8" "snapshot_addr (fpga s) = 0x7000"
    using loaded_device [of "[0x1000, 0x2000]"] by (auto simp: NUM_POSSIBLE_VIRTINES_def)
  have "dma_copies (\<lambda>x. ucast x) (plain_copy (\<lambda>x. ucast x))"
    by (simp add: dma_copies_def plain_copy_def covers_def)
  moreover have "disjoint_virtines (snapshot_size (fpga s)) (set (rq_list s))"
    unfolding s
  proof -
    have apart: "\<not> y + 0x1000 < 8" if "y < 8" for y :: u64
      using that by (simp add: word_less_nat_alt unat_word_ariths)
    have False if "x - 0x1000 < 8" "x - 0x2000 < 8" for x :: u64
      using apart [OF that(2)] that(1) by simp
    then show "disjoint_virtines 8 (set [0x1000, 0x2000])"
      by (auto simp: disjoint_virtines_def covers_def)
  qed
  ultimately obtain s' tr where r: "clean_pass s = Some s'" "calls s' = calls s @ tr"
    "\<forall>v\<in>set (rq_list s). \<forall>x. covers v (snapshot_size (fpga s)) x \<longrightarrow>
       run_dma (plain_copy (\<lambda>x. ucast x)) tr (\<lambda>x. 0xFF) x = ucast (snapshot_addr (fpga s) + (x - v))"
    "\<forall>x. (\<forall>v\<in>set (rq_list s). \<not> covers v (snapshot_size (fpga s)) x) \<longrightarrow>
       run_dma (plain_copy (\<lambda>x. ucast x)) tr (\<lambda>x. 0xFF) x = 0xFF"
    using pass_restores_memory [OF _ s(1), where m = "\<lambda>x. 0xFF"] by blast
  have "run_dma (plain_copy (\<lambda>x. ucast x)) tr (\<lambda>x. 0xFF) 0x2003 = ucast (0x7003 :: u64)"
    using r(3) [unfolded s, rule_format, of "0x2000" "0x2003"] by (simp add: covers_def)
  moreover have "ucast (0x7003 :: u64) = (3 :: u8)" by simp
  moreover have "run_dma (plain_copy (\<lambda>x. ucast x)) tr (\<lambda>x. 0xFF) 0x2008 = 0xFF"
    by (rule r(4) [unfolded s, rule_format]) (auto simp: covers_def)
  ultimately show ?thesis using r(1,2) s(2) by metis
qed

end
