(* ===== verification/Bus.thy ===== *)
theory Bus
  imports VirtineDevice
begin

section \<open>The bus between the driver and the device\<close>

text \<open>
  The driver reaches the device through \<open>readl\<close>/\<open>ioread32\<close> and \<open>iowrite32\<close> on the mapped BAR.
  What lies between, the kernel's accessors and QEMU's memory core, is not part of the program:
  the accessors are arguments of the driver's operations.  The driver's lemmas rest on two
  contracts, \<open>mmio_bus\<close> (accesses inside the BAR succeed) and \<open>virtine_bus\<close> (pairs of accesses
  at the queue registers pop and push addresses); \<open>attached\<close> says that the accessors deliver each
  32-bit access inside the BAR to the device's handlers, which the device registers with QEMU
  as handling accesses of four bytes, and then both contracts hold.
\<close>

type_synonym 'b readl = "'b \<Rightarrow> u64 \<Rightarrow> (u32 \<times> 'b) option"
type_synonym 'b iowrite32 = "'b \<Rightarrow> u32 \<Rightarrow> u64 \<Rightarrow> 'b option"

definition in_bar :: "u64 \<Rightarrow> u64 \<Rightarrow> bool" where
  "in_bar base a \<longleftrightarrow> unat (a - base) < 1 * GiB"

locale mmio_bus =
  fixes readl :: "'b readl" and iowrite32 :: "'b iowrite32" and base :: u64 and ok :: "'b \<Rightarrow> bool"
  assumes readl_ok: "ok b \<Longrightarrow> in_bar base a \<Longrightarrow> \<exists>v b'. readl b a = Some (v, b') \<and> ok b'"
    and iowrite32_ok: "ok b \<Longrightarrow> in_bar base a \<Longrightarrow> \<exists>b'. iowrite32 b v a = Some b' \<and> ok b'"

locale virtine_bus = mmio_bus +
  fixes wf :: "'b \<Rightarrow> bool" and rqs :: "'b \<Rightarrow> u64 list" and cqs :: "'b \<Rightarrow> u64 list"
  assumes wf_ok: "wf b \<Longrightarrow> ok b"
    and pop_pair: "wf b \<Longrightarrow> \<exists>v1 b1 v2 b2.
      readl b (base + CQ_HEAD_OFFSET_REG) = Some (v1, b1) \<and>
      readl b1 (base + CQ_HEAD_OFFSET_REG + 4) = Some (v2, b2) \<and>
      join32 v1 v2 = (if cqs b = [] then 0 else hd (cqs b)) \<and>
      wf b2 \<and> cqs b2 = tl (cqs b) \<and> rqs b2 = rqs b"
    and push_pair: "wf b \<Longrightarrow> v \<noteq> 0 \<Longrightarrow> \<exists>b1 b2.
      iowrite32 b (lo32 v) (base + RQ_TAIL_OFFSET_REG) = Some b1 \<and>
      iowrite32 b1 (hi32 v) (base + RQ_TAIL_OFFSET_REG + 4) = Some b2 \<and>
      wf b2 \<and> cqs b2 = cqs b \<and>
      rqs b2 = (if length (rqs b) < NUM_POSSIBLE_VIRTINES then rqs b @ [v] else rqs b)"
    and cqs_bounded: "wf b \<Longrightarrow> length (cqs b) \<le> NUM_POSSIBLE_VIRTINES"
    and cqs_non_null: "wf b \<Longrightarrow> 0 \<notin> set (cqs b)"

definition bus_readl :: "u64 \<Rightarrow> qemu_state readl" where
  "bus_readl base s a =
     (if in_bar base a
      then map_option (\<lambda>(v, s). (lo32 v, s)) (virtine_fpga_mmio_read s (a - base) 4) else None)"

definition bus_iowrite32 :: "u64 \<Rightarrow> qemu_state iowrite32" where
  "bus_iowrite32 base s v a =
     (if in_bar base a then virtine_fpga_mmio_write s (a - base) (ucast v) 4 else None)"

definition attached :: "u64 \<Rightarrow> qemu_state readl \<Rightarrow> qemu_state iowrite32 \<Rightarrow> bool" where
  "attached base readl iowrite32 \<longleftrightarrow>
     (\<forall>s a v. in_bar base a \<longrightarrow>
        readl s a = bus_readl base s a \<and> iowrite32 s v a = bus_iowrite32 base s v a)"

lemma attached_bus: "attached base (bus_readl base) (bus_iowrite32 base)"
  by (simp add: attached_def)

lemma in_bar_offset: "in_bar base (base + r) \<longleftrightarrow> unat r < GiB"
  by (simp add: in_bar_def)

lemma reg_in_bar:
  "in_bar base (base + RQ_TAIL_OFFSET_REG)" "in_bar base (base + RQ_TAIL_OFFSET_REG + 4)"
  "in_bar base (base + CQ_HEAD_OFFSET_REG)" "in_bar base (base + CQ_HEAD_OFFSET_REG + 4)"
  "in_bar base (base + BATCH_FACTOR_REG)" "in_bar base (base + MAX_NUM_VIRTINES_REG)"
  "in_bar base (base + DOORBELL_REG)"
  "in_bar base (base + SNAPSHOT_SIZE_REG)" "in_bar base (base + SNAPSHOT_SIZE_REG + 4)"
  "in_bar base (base + SNAPSHOT_ADDR_REG)" "in_bar base (base + SNAPSHOT_ADDR_REG + 4)"
  by (simp_all add: in_bar_def reg_simps GiB_def)

lemma attachedD:
  assumes "attached base readl iowrite32" "in_bar base (base + r)"
  shows "readl s (base + r) = map_option (\<lambda>(v, s). (lo32 v, s)) (virtine_fpga_mmio_read s r 4)"
    "iowrite32 s v (base + r) = virtine_fpga_mmio_write s r (ucast v) 4"
  using assms by (simp_all add: attached_def bus_readl_def bus_iowrite32_def)

lemma attached_mmio_bus:
  assumes "attached base readl iowrite32"
  shows "mmio_bus readl iowrite32 base dev_ok"
proof
  fix s a v assume s: "dev_ok s" and a: "in_bar base a"
  show "\<exists>v b'. readl s a = Some (v, b') \<and> dev_ok b'"
    using mmio_read_ok [OF s, of "a - base" 4] assms a
    by (auto simp: attached_def bus_readl_def)
  show "\<exists>b'. iowrite32 s v a = Some b' \<and> dev_ok b'"
    using mmio_write_ok [OF s, of "a - base" "ucast v" 4] assms a
    by (auto simp: attached_def bus_iowrite32_def)
qed

lemma attached_virtine_bus:
  assumes "attached base readl iowrite32"
  shows "virtine_bus readl iowrite32 base dev_ok dev_wf rq_list cq_list"
proof (intro virtine_bus.intro virtine_bus_axioms.intro)
  show "mmio_bus readl iowrite32 base dev_ok" using assms by (rule attached_mmio_bus)
  note at = attachedD [OF assms]
  fix s and v :: u64 assume s: "dev_wf s"
  show "dev_ok s" using s by (rule dev_wf_ok)
  show "\<exists>v1 s1 v2 s2. readl s (base + CQ_HEAD_OFFSET_REG) = Some (v1, s1) \<and>
      readl s1 (base + CQ_HEAD_OFFSET_REG + 4) = Some (v2, s2) \<and>
      join32 v1 v2 = (if cq_list s = [] then 0 else hd (cq_list s)) \<and>
      dev_wf s2 \<and> cq_list s2 = tl (cq_list s) \<and> rq_list s2 = rq_list s"
    using cq_read_pair [OF s] at [OF reg_in_bar(3)] at [of "CQ_HEAD_OFFSET_REG + 4"] reg_in_bar(4)
    by (fastforce simp: add.assoc)
  show "length (cq_list s) \<le> NUM_POSSIBLE_VIRTINES"
    using s ring_fifo.bounded by (simp add: dev_wf_def)
  show "0 \<notin> set (cq_list s)"
    using s ring_fifo.no_null by (simp add: dev_wf_def)
  assume v: "v \<noteq> 0"
  show "\<exists>s1 s2. iowrite32 s (lo32 v) (base + RQ_TAIL_OFFSET_REG) = Some s1 \<and>
      iowrite32 s1 (hi32 v) (base + RQ_TAIL_OFFSET_REG + 4) = Some s2 \<and>
      dev_wf s2 \<and> cq_list s2 = cq_list s \<and>
      rq_list s2 = (if length (rq_list s) < NUM_POSSIBLE_VIRTINES then rq_list s @ [v] else rq_list s)"
    using rq_write_pair [OF s v] at [OF reg_in_bar(1)] at [of "RQ_TAIL_OFFSET_REG + 4"] reg_in_bar(2)
    by (fastforce simp: add.assoc)
qed

interpretation dev_bus: virtine_bus "bus_readl base" "bus_iowrite32 base" base dev_ok dev_wf
    rq_list cq_list for base
  by (rule attached_virtine_bus [OF attached_bus])

end
