(* ===== verification/CharDev.thy ===== *)
theory CharDev
  imports Cleanup Bus
begin

section \<open>The character device of the kernel driver\<close>

text \<open>
  The file operations of \<open>fpga-char/chardev.c\<close>.  Their environment is passed as arguments:
  \<open>readl\<close>/\<open>iowrite32\<close> are 32-bit accesses to a mapped address that change the state \<open>'b\<close> of
  what lies behind the bus (\<open>None\<close>: the access faults), \<open>copy_from_user\<close> gives the four bytes at
  a user address and how many could not be copied, \<open>copy_to_user\<close> stores eight bytes and tells
  how many could not be, and \<open>poke\<close> is a plain store through a pointer.
  Kernel objects are numbered; a pointer to one is an \<open>option\<close> (\<open>None\<close> is \<open>NULL\<close>), and following
  a null pointer or one to a freed object gives \<open>None\<close>.  Sizes are \<open>nat\<close>, results \<open>int\<close>.
\<close>

type_synonym copy_from_user = "u64 \<Rightarrow> u32 \<times> nat"
type_synonym 'u copy_to_user = "'u \<Rightarrow> u64 \<Rightarrow> u64 \<Rightarrow> 'u \<times> nat"
type_synonym 'u poke = "'u \<Rightarrow> u64 \<Rightarrow> u64 \<Rightarrow> 'u option"

subsection \<open>State of the driver\<close>

record fpga_device =
  drv_vendor_id :: u16
  drv_device_id :: u16
  dev_mem :: u64
  drv_batch_factor :: u32
  filep :: "nat option"

record fpga_char_private_data =
  minor_device_number :: u8
  fpga_hw :: "nat option"

record struct_file =
  private_data :: "nat option"

record driver_state =
  fpga_dev :: "nat option"
  fpgas :: "nat \<rightharpoonup> fpga_device"
  privs :: "nat \<rightharpoonup> fpga_char_private_data"
  files :: "nat \<rightharpoonup> struct_file"
  module_refs :: int

definition ENOMEM :: int where "ENOMEM = 12"
definition EIO :: int where "EIO = 5"
definition EFAULT :: int where "EFAULT = 14"
definition ENOTTY :: int where "ENOTTY = 25"

text \<open>\<open>filep->private_data->fpga_hw\<close>, as every operation reads it.\<close>

definition hw_of :: "driver_state \<Rightarrow> nat option \<Rightarrow> fpga_device option" where
  "hw_of d fp = do {
     n \<leftarrow> fp;
     f \<leftarrow> files d n;
     p \<leftarrow> private_data f;
     priv \<leftarrow> privs d p;
     hw \<leftarrow> fpga_hw priv;
     fpgas d hw
   }"

subsection \<open>Open and release\<close>

text \<open>\<open>kzalloc\<close> is the number of the allocated object, or \<open>None\<close>.\<close>

definition fpga_char_open ::
  "nat option \<Rightarrow> driver_state \<Rightarrow> u32 \<Rightarrow> nat \<Rightarrow> (int \<times> driver_state) option" where
  "fpga_char_open kzalloc d iminor fp =
    (case kzalloc of
       None \<Rightarrow> Some (- ENOMEM, d)
     | Some p \<Rightarrow> do {
         let d = d\<lparr>privs := (privs d)(p \<mapsto>
           \<lparr>minor_device_number = ucast iminor, fpga_hw = fpga_dev d\<rparr>)\<rparr>;
         hw \<leftarrow> fpga_dev d;
         fpga \<leftarrow> fpgas d hw;
         let d = d\<lparr>fpgas := (fpgas d)(hw \<mapsto> fpga\<lparr>filep := Some fp\<rparr>)\<rparr>;
         f \<leftarrow> files d fp;
         let d = d\<lparr>files := (files d)(fp \<mapsto> f\<lparr>private_data := Some p\<rparr>)\<rparr>;
         Some (0, d\<lparr>module_refs := module_refs d + 1\<rparr>)
       })"

definition fpga_char_release :: "driver_state \<Rightarrow> nat \<Rightarrow> (int \<times> driver_state) option" where
  "fpga_char_release d fp = do {
     f \<leftarrow> files d fp;
     let d = (case private_data f of
                None \<Rightarrow> d
              | Some p \<Rightarrow> d\<lparr>privs := (privs d)(p := None)\<rparr>);
     Some (0, d\<lparr>module_refs := module_refs d - 1\<rparr>)
   }"

subsection \<open>Reading\<close>

text \<open>
  The loop of \<open>_fpga_char_read\<close> (\<open>fpga_char_read0\<close> here).  The buffer is given as its 32-bit words; a \<open>memcpy\<close> behind its
  last word is undefined.  The step of four keeps \<open>bytes_read\<close> a multiple of four.
\<close>

function read_words ::
  "'b readl \<Rightarrow> 'b \<Rightarrow> u32 list \<Rightarrow> nat \<Rightarrow> nat \<Rightarrow> u64 \<Rightarrow> (nat \<times> u32 list \<times> 'b) option" where
  "read_words readl b buf bytes_read len to_read_from =
    (if bytes_read < len then
       (case readl b (to_read_from + of_nat bytes_read) of
          None \<Rightarrow> None
        | Some (clean_virtine_addr, b') \<Rightarrow>
            if bytes_read div 4 < length buf
            then read_words readl b' (buf[bytes_read div 4 := clean_virtine_addr])
                   (bytes_read + 4) len to_read_from
            else None)
     else Some (bytes_read, buf, b))"
  by pat_completeness auto
termination
  by (relation "measure (\<lambda>(r, b, buf, n, len, a). len - n)") auto

declare read_words.simps [simp del]

definition fpga_char_read0 ::
  "'b readl \<Rightarrow> driver_state \<Rightarrow> 'b \<Rightarrow> nat option \<Rightarrow> u32 list \<Rightarrow> nat \<Rightarrow> u64 \<Rightarrow>
   (nat \<times> u32 list \<times> 'b) option" where
  "fpga_char_read0 readl d b fp buf len offset = do {
     hw \<leftarrow> hw_of d fp;
     if offset mod 4 \<noteq> 0 then Some (0, buf, b)
     else read_words readl b buf 0 len (dev_mem hw + offset)
   }"

text \<open>
  \<open>fpga_char_read\<close>: \<open>stack\<close> is what the local \<open>clean_virtine_addr\<close> happens to hold, two words.
\<close>

definition fpga_char_read ::
  "'b readl \<Rightarrow> 'u copy_to_user \<Rightarrow> driver_state \<Rightarrow> 'b \<Rightarrow> 'u \<Rightarrow> u64 \<Rightarrow> nat option \<Rightarrow> u64 \<Rightarrow> nat \<Rightarrow> u64 \<Rightarrow>
   (int \<times> 'b \<times> 'u) option" where
  "fpga_char_read readl copy_to_user d b u stack fp buf len offset = do {
     (bytes_read, words, b) \<leftarrow> fpga_char_read0 readl d b fp [lo32 stack, hi32 stack] len offset;
     if bytes_read = 0 then Some (- EIO, b, u)
     else let (u, left) = copy_to_user u buf (join32 (words ! 0) (words ! 1)) in
       Some (if left \<noteq> 0 then - EFAULT else int bytes_read, b, u)
   }"

subsection \<open>Writing\<close>

function write_words ::
  "'b iowrite32 \<Rightarrow> copy_from_user \<Rightarrow> 'b \<Rightarrow> u64 \<Rightarrow> nat \<Rightarrow> nat \<Rightarrow> u64 \<Rightarrow> (nat \<times> 'b) option" where
  "write_words iowrite32 copy_from_user b buf bytes_written len to_write_to =
    (if bytes_written < len then
       (case iowrite32 b (fst (copy_from_user (buf + of_nat bytes_written)))
               (to_write_to + of_nat bytes_written) of
          None \<Rightarrow> None
        | Some b' \<Rightarrow>
            write_words iowrite32 copy_from_user b' buf (bytes_written + 4) len to_write_to)
     else Some (bytes_written, b))"
  by pat_completeness auto
termination
  by (relation "measure (\<lambda>(w, c, b, buf, n, len, a). len - n)") auto

declare write_words.simps [simp del]

definition fpga_char_write ::
  "'b iowrite32 \<Rightarrow> copy_from_user \<Rightarrow> driver_state \<Rightarrow> 'b \<Rightarrow> nat option \<Rightarrow> u64 \<Rightarrow> nat \<Rightarrow> u64 \<Rightarrow>
   (int \<times> 'b) option" where
  "fpga_char_write iowrite32 copy_from_user d b fp buf len offset = do {
     hw \<leftarrow> hw_of d fp;
     if offset mod 4 \<noteq> 0 then Some (0, b)
     else map_option (\<lambda>(n, b). (int n, b))
            (write_words iowrite32 copy_from_user b buf 0 len (dev_mem hw + offset))
   }"

subsection \<open>ioctl\<close>

text \<open>
  The command numbers are built by the kernel's \<open>_IOC\<close> macro from direction, type, number and
  argument size; the macro is the argument \<open>ioc\<close>.  \<open>user_\<close> are the copies of the numbers
  in \<open>fpga-char-test/ioctls.h\<close>.
\<close>

type_synonym ioc = "u32 \<Rightarrow> u32 \<Rightarrow> u32 \<Rightarrow> u32 \<Rightarrow> u32"

definition IOC_NONE :: u32 where "IOC_NONE = 0"
definition IOC_WRITE :: u32 where "IOC_WRITE = 1"
definition IOC_READ :: u32 where "IOC_READ = 2"

definition IOCTL_MAGIC :: u32 where "IOCTL_MAGIC = 0x46"   \<comment> \<open>\<open>'F'\<close>\<close>

definition FPGA_CHAR_MODIFY_BATCH_FACTOR :: "ioc \<Rightarrow> u32" where
  "FPGA_CHAR_MODIFY_BATCH_FACTOR ioc = ioc IOC_READ IOCTL_MAGIC 0x30 8"

definition FPGA_CHAR_GET_MAX_NUM_VIRTINES :: "ioc \<Rightarrow> u32" where
  "FPGA_CHAR_GET_MAX_NUM_VIRTINES ioc = ioc IOC_WRITE IOCTL_MAGIC 0x31 8"

definition FPGA_CHAR_RING_DOORBELL :: "ioc \<Rightarrow> u32" where
  "FPGA_CHAR_RING_DOORBELL ioc = ioc IOC_NONE IOCTL_MAGIC 0x32 0"

definition FPGA_CHAR_SET_SNAPSHOT :: "ioc \<Rightarrow> u32" where
  "FPGA_CHAR_SET_SNAPSHOT ioc = ioc IOC_READ IOCTL_MAGIC 0x33 8"

definition user_FPGA_CHAR_MODIFY_BATCH_FACTOR :: u32 where
  "user_FPGA_CHAR_MODIFY_BATCH_FACTOR = 0x80084630"

definition user_FPGA_CHAR_GET_MAX_NUM_VIRTINES :: u32 where
  "user_FPGA_CHAR_GET_MAX_NUM_VIRTINES = 0x40084631"

definition user_FPGA_CHAR_RING_DOORBELL :: u32 where
  "user_FPGA_CHAR_RING_DOORBELL = 0x4632"

definition user_FPGA_CHAR_SET_SNAPSHOT :: u32 where
  "user_FPGA_CHAR_SET_SNAPSHOT = 0x80084633"

text \<open>\<open>struct virtine_snapshot\<close> at \<open>args\<close>: \<open>addr\<close> in its first eight bytes, then \<open>size\<close>.\<close>

definition fpga_char_ioctl ::
  "ioc \<Rightarrow> 'b readl \<Rightarrow> 'b iowrite32 \<Rightarrow> copy_from_user \<Rightarrow> 'u poke \<Rightarrow> driver_state \<Rightarrow> 'b \<Rightarrow> 'u \<Rightarrow>
   nat option \<Rightarrow> u32 \<Rightarrow> u64 \<Rightarrow> (int \<times> 'b \<times> 'u) option" where
  "fpga_char_ioctl ioc ioread32 iowrite32 copy_from_user poke d b u fp cmd args =
    (if cmd = FPGA_CHAR_MODIFY_BATCH_FACTOR ioc then do {
       hw \<leftarrow> hw_of d fp;
       b \<leftarrow> iowrite32 b (lo32 args) (dev_mem hw + drv_BATCH_FACTOR_REG);
       Some (0, b, u)
     }
     else if cmd = FPGA_CHAR_GET_MAX_NUM_VIRTINES ioc then do {
       hw \<leftarrow> hw_of d fp;
       (num, b) \<leftarrow> ioread32 b (dev_mem hw + drv_MAX_NUM_VIRTINES_REG);
       u \<leftarrow> poke u args (ucast num);
       Some (0, b, u)
     }
     else if cmd = FPGA_CHAR_RING_DOORBELL ioc then do {
       hw \<leftarrow> hw_of d fp;
       b \<leftarrow> iowrite32 b 1 (dev_mem hw + drv_DOORBELL_REG);
       Some (0, b, u)
     }
     else if cmd = FPGA_CHAR_SET_SNAPSHOT ioc then do {
       let offset = drv_SNAPSHOT_SIZE_REG;
       (ret, b) \<leftarrow> fpga_char_write iowrite32 copy_from_user d b fp (args + 8) 8 offset;
       let offset = drv_SNAPSHOT_ADDR_REG;
       (ret, b) \<leftarrow> fpga_char_write iowrite32 copy_from_user d b fp args 8 offset;
       Some (ret, b, u)
     }
     else Some (- ENOTTY, b, u))"

subsection \<open>Transfers as lists of accesses\<close>

fun mmio_reads :: "'b readl \<Rightarrow> 'b \<Rightarrow> u64 list \<Rightarrow> (u32 list \<times> 'b) option" where
  "mmio_reads readl b [] = Some ([], b)"
| "mmio_reads readl b (a # as) = do {
     (v, b) \<leftarrow> readl b a;
     (vs, b) \<leftarrow> mmio_reads readl b as;
     Some (v # vs, b)
   }"

fun mmio_writes :: "'b iowrite32 \<Rightarrow> 'b \<Rightarrow> (u32 \<times> u64) list \<Rightarrow> 'b option" where
  "mmio_writes iowrite32 b [] = Some b"
| "mmio_writes iowrite32 b ((v, a) # vas) = do {
     b \<leftarrow> iowrite32 b v a;
     mmio_writes iowrite32 b vas
   }"

definition words_of :: "nat \<Rightarrow> nat" where
  "words_of len = (len + 3) div 4"

lemma less_words_of: "4 * i < len \<longleftrightarrow> i < words_of len"
  by (auto simp: words_of_def)

lemma words_of_simps [simp]: "words_of 0 = 0" "words_of 4 = 1" "words_of 8 = 2"
  by (simp_all add: words_of_def)

lemma words_of_le: "words_of len \<le> n \<longleftrightarrow> len \<le> 4 * n"
  by (auto simp: words_of_def)

definition word_addrs :: "u64 \<Rightarrow> nat \<Rightarrow> nat \<Rightarrow> u64 list" where
  "word_addrs a i k = map (\<lambda>j. a + of_nat (4 * j)) [i..<k]"

lemma word_addrs_simps:
  "i < k \<Longrightarrow> word_addrs a i k = (a + of_nat (4 * i)) # word_addrs a (Suc i) k"
  "\<not> i < k \<Longrightarrow> word_addrs a i k = []"
  by (simp_all add: word_addrs_def upt_conv_Cons)

definition user_words :: "copy_from_user \<Rightarrow> u64 \<Rightarrow> nat \<Rightarrow> nat \<Rightarrow> u32 list" where
  "user_words copy_from_user buf i k = map (\<lambda>a. fst (copy_from_user a)) (word_addrs buf i k)"

lemma write_words_eq:
  assumes "i \<le> words_of len"
  shows "write_words iowrite32 copy_from_user b buf (4 * i) len a =
    map_option (Pair (4 * words_of len))
      (mmio_writes iowrite32 b (zip (user_words copy_from_user buf i (words_of len))
                                    (word_addrs a i (words_of len))))"
  using assms
proof (induction "words_of len - i" arbitrary: i b)
  case 0
  then have "i = words_of len" by simp
  then show ?case
    using less_words_of [of i len]
    by (simp add: write_words.simps user_words_def word_addrs_simps)
next
  case (Suc n)
  then have lt: "i < words_of len" by simp
  then have len: "4 * i < len" by (simp add: less_words_of)
  note IH = Suc.hyps(1) [of "Suc i", simplified mult_Suc_right add.commute [of 4]]
  have "write_words iowrite32 copy_from_user b buf (4 * i) len a =
    (case iowrite32 b (fst (copy_from_user (buf + of_nat (4 * i)))) (a + of_nat (4 * i)) of
       None \<Rightarrow> None
     | Some b' \<Rightarrow> write_words iowrite32 copy_from_user b' buf (4 * i + 4) len a)"
    using len by (subst write_words.simps) simp
  also have "\<dots> = map_option (Pair (4 * words_of len))
      (mmio_writes iowrite32 b (zip (user_words copy_from_user buf i (words_of len))
                                    (word_addrs a i (words_of len))))"
    using IH Suc.hyps(2) lt
    by (simp add: user_words_def word_addrs_simps(1) [OF lt] split: option.split)
  finally show ?case .
qed

lemma read_words_eq:
  assumes "i \<le> words_of len" "words_of len \<le> length buf"
  shows "read_words readl b buf (4 * i) len a =
    map_option (\<lambda>(vs, b). (4 * words_of len, take i buf @ vs @ drop (words_of len) buf, b))
      (mmio_reads readl b (word_addrs a i (words_of len)))"
  using assms
proof (induction "words_of len - i" arbitrary: i b buf)
  case 0
  then have "i = words_of len" by simp
  then show ?case
    using less_words_of [of i len] by (simp add: read_words.simps word_addrs_simps)
next
  case (Suc n)
  then have lt: "i < words_of len" by simp
  then have len: "4 * i < len" by (simp add: less_words_of)
  have IH: "read_words readl b' (buf[i := v]) (4 * i + 4) len a =
    map_option (\<lambda>(vs, b). (4 * words_of len, take i buf @ v # vs @ drop (words_of len) buf, b))
      (mmio_reads readl b' (word_addrs a (Suc i) (words_of len)))" for b' v
    using Suc.hyps(1) [of "Suc i" "buf[i := v]" b'] Suc.hyps(2) Suc.prems lt
    by (simp add: take_Suc_conv_app_nth add.commute)
  have "read_words readl b buf (4 * i) len a =
    (case readl b (a + of_nat (4 * i)) of
       None \<Rightarrow> None
     | Some (v, b') \<Rightarrow> read_words readl b' (buf[i := v]) (4 * i + 4) len a)"
    using len lt Suc.prems(2) by (subst read_words.simps) (simp split: option.split)
  also have "\<dots> = map_option (\<lambda>(vs, b). (4 * words_of len, take i buf @ vs @ drop (words_of len) buf, b))
      (mmio_reads readl b (word_addrs a i (words_of len)))"
    by (auto simp: IH word_addrs_simps(1) [OF lt] option.map_comp comp_def split: option.splits
        bind_splits)
  finally show ?case .
qed

lemma read_words_overflow:
  assumes "i \<le> length buf" "length buf < words_of len"
  shows "read_words readl b buf (4 * i) len a = None"
  using assms
proof (induction "length buf - i" arbitrary: i b buf)
  case 0
  then have "4 * i < len" "i = length buf" by (simp_all add: less_words_of)
  then show ?case by (simp add: read_words.simps split: option.split)
next
  case (Suc n)
  then have len: "4 * i < len" by (simp add: less_words_of)
  have "read_words readl b' (buf[i := v]) (4 * i + 4) len a = None" for b' v
    using Suc.hyps(1) [of "buf[i := v]" "Suc i" b'] Suc.hyps(2) Suc.prems
    by (simp add: add.commute)
  then show ?case using len by (subst read_words.simps) (simp split: option.split)
qed

subsection \<open>On a bus whose accesses succeed\<close>

lemma word_addrs_in_bar:
  assumes "unat off + 4 * k \<le> GiB" "a \<in> set (word_addrs (base + off) 0 k)"
  shows "in_bar base a"
proof -
  from assms(2) obtain j where j: "j < k" "a = base + (off + of_nat (4 * j))"
    by (auto simp: word_addrs_def algebra_simps)
  have "unat (of_nat (4 * j) :: u64) = 4 * j"
    using assms(1) j(1) by (subst unat_of_nat) (simp add: GiB_def)
  then have "unat (off + of_nat (4 * j)) = unat off + 4 * j"
    using assms(1) j(1) by (subst unat_word_ariths) (simp add: GiB_def)
  with assms(1) j show ?thesis unfolding j(2) in_bar_offset by simp
qed

context mmio_bus
begin

lemma reads_ok:
  assumes "ok b" "\<And>a. a \<in> set as \<Longrightarrow> in_bar base a"
  shows "\<exists>vs b'. mmio_reads readl b as = Some (vs, b') \<and> ok b'"
  using assms
proof (induction as arbitrary: b)
  case (Cons a as)
  from readl_ok [OF Cons.prems(1), of a] Cons.prems(2) obtain v b1 where
    "readl b a = Some (v, b1)" "ok b1" by auto
  with Cons.IH [of b1] Cons.prems(2) show ?case by force
qed simp

lemma writes_ok:
  assumes "ok b" "\<And>v a. (v, a) \<in> set vas \<Longrightarrow> in_bar base a"
  shows "\<exists>b'. mmio_writes iowrite32 b vas = Some b' \<and> ok b'"
  using assms
proof (induction vas arbitrary: b)
  case (Cons va vas)
  obtain v a where va: "va = (v, a)" by fastforce
  with iowrite32_ok [OF Cons.prems(1), of a v] Cons.prems(2) obtain b1 where
    "iowrite32 b v a = Some b1" "ok b1" by auto
  with va Cons.IH [of b1] Cons.prems(2) show ?case by auto
qed simp

lemma char_write_ok:
  assumes "hw_of d fp = Some hw" "dev_mem hw = base" "ok b" "offset mod 4 = 0"
    "unat offset + 4 * words_of len \<le> GiB"
  shows "\<exists>b'. fpga_char_write iowrite32 copy_from_user d b fp buf len offset =
    Some (4 * int (words_of len), b') \<and> ok b'"
proof -
  let ?vas = "zip (user_words copy_from_user buf 0 (words_of len))
    (word_addrs (base + offset) 0 (words_of len))"
  have bar: "in_bar base a" if "(v, a) \<in> set ?vas" for v a
    using that word_addrs_in_bar [OF assms(5)] by (meson set_zip_rightD)
  from writes_ok [OF assms(3), of ?vas] bar obtain b' where "mmio_writes iowrite32 b ?vas = Some b'" "ok b'"
    by blast
  then show ?thesis
    using write_words_eq [of 0 len iowrite32 copy_from_user b buf "base + offset"] assms(1,2,4)
    by (simp add: fpga_char_write_def)
qed

lemma char_read_iff:
  assumes "hw_of d fp = Some hw" "dev_mem hw = base" "ok b" "offset mod 4 = 0"
    "unat offset + 8 \<le> GiB"
  shows "fpga_char_read readl copy_to_user d b u stack fp buf len offset = None \<longleftrightarrow> 8 < len"
proof (cases "8 < len")
  case True
  then have "2 < words_of len" using words_of_le [of len 2] by simp
  with read_words_overflow [of 0 "[lo32 stack, hi32 stack]" len readl b "base + offset"]
  show ?thesis using True assms(1,2,4) by (simp add: fpga_char_read_def fpga_char_read0_def)
next
  case False
  then have k: "words_of len \<le> 2" using words_of_le [of len 2] by simp
  have "in_bar base a" if "a \<in> set (word_addrs (base + offset) 0 (words_of len))" for a
    using that k assms(5) by (intro word_addrs_in_bar) auto
  from reads_ok [OF assms(3) this] obtain vs b' where
    "mmio_reads readl b (word_addrs (base + offset) 0 (words_of len)) = Some (vs, b')" by blast
  with read_words_eq [of 0 len "[lo32 stack, hi32 stack]" readl b "base + offset"] k
  show ?thesis using False assms(1,2,4)
    by (auto simp: fpga_char_read_def fpga_char_read0_def Let_def split: prod.split)
qed

end

context virtine_bus
begin

lemma pop_words:
  assumes "wf b"
  shows "\<exists>v1 v2 b'. mmio_reads readl b (word_addrs (base + CQ_HEAD_OFFSET_REG) 0 2) = Some ([v1, v2], b') \<and>
    join32 v1 v2 = (if cqs b = [] then 0 else hd (cqs b)) \<and>
    wf b' \<and> cqs b' = tl (cqs b) \<and> rqs b' = rqs b"
  using pop_pair [OF assms] by (force simp: word_addrs_def upt_rec)

lemma push_words:
  assumes "wf b" "v \<noteq> 0"
  shows "\<exists>b'. mmio_writes iowrite32 b
      (zip [lo32 v, hi32 v] (word_addrs (base + RQ_TAIL_OFFSET_REG) 0 2)) = Some b' \<and>
    wf b' \<and> cqs b' = cqs b \<and>
    rqs b' = (if length (rqs b) < NUM_POSSIBLE_VIRTINES then rqs b @ [v] else rqs b)"
  using push_pair [OF assms] by (force simp: word_addrs_def upt_rec)

lemma char_write_enqueues:
  assumes "hw_of d fp = Some hw" "dev_mem hw = base" "wf b" "v \<noteq> 0"
    "fst (copy_from_user buf) = lo32 v" "fst (copy_from_user (buf + 4)) = hi32 v"
  shows "\<exists>b'. fpga_char_write iowrite32 copy_from_user d b fp buf 8 drv_RQ_TAIL_OFFSET_REG = Some (8, b') \<and>
    wf b' \<and> cqs b' = cqs b \<and>
    rqs b' = (if length (rqs b) < NUM_POSSIBLE_VIRTINES then rqs b @ [v] else rqs b)"
proof -
  have "user_words copy_from_user buf 0 2 = [lo32 v, hi32 v]"
    using assms(5,6) by (simp add: user_words_def word_addrs_def upt_rec)
  with push_words [OF assms(3,4)]
    write_words_eq [of 0 8 iowrite32 copy_from_user b buf "base + RQ_TAIL_OFFSET_REG"]
  show ?thesis using assms(1,2) by (auto simp: fpga_char_write_def reg_simps)
qed

lemma read0_pops:
  assumes "hw_of d fp = Some hw" "dev_mem hw = base" "wf b" "length buf = 2"
  shows "\<exists>v1 v2 b'. fpga_char_read0 readl d b fp buf 8 drv_CQ_HEAD_OFFSET_REG = Some (8, [v1, v2], b') \<and>
    join32 v1 v2 = (if cqs b = [] then 0 else hd (cqs b)) \<and>
    wf b' \<and> cqs b' = tl (cqs b) \<and> rqs b' = rqs b"
  using pop_words [OF assms(3)] read_words_eq [of 0 8 buf readl b "base + CQ_HEAD_OFFSET_REG"]
    assms(1,2,4)
  by (auto simp: fpga_char_read0_def reg_simps)

end


subsection \<open>An opened device, for the witnesses\<close>

definition example_driver :: driver_state where
  "example_driver = \<lparr>fpga_dev = Some 0,
     fpgas = [0 \<mapsto> \<lparr>drv_vendor_id = 0x1172, drv_device_id = 0xE003, dev_mem = 0xF0000000,
                    drv_batch_factor = 1, filep = Some 0\<rparr>],
     privs = [0 \<mapsto> \<lparr>minor_device_number = 0, fpga_hw = Some 0\<rparr>],
     files = [0 \<mapsto> \<lparr>private_data = Some 0\<rparr>, 1 \<mapsto> \<lparr>private_data = None\<rparr>], module_refs = 1\<rparr>"

abbreviation example_hw :: fpga_device where
  "example_hw \<equiv> \<lparr>drv_vendor_id = 0x1172, drv_device_id = 0xE003, dev_mem = 0xF0000000,
     drv_batch_factor = 1, filep = Some 0\<rparr>"

lemma example_driver_hw: "hw_of example_driver (Some 0) = Some example_hw"
  by (simp add: hw_of_def example_driver_def)

text \<open>User memory that holds the 64-bit value \<open>v\<close> at address \<open>a\<close> and zeros elsewhere.\<close>

definition user_u64 :: "u64 \<Rightarrow> u64 \<Rightarrow> copy_from_user" where
  "user_u64 a v x = (if x = a then (lo32 v, 0) else if x = a + 4 then (hi32 v, 0) else (0, 0))"

abbreviation example_bus :: "qemu_state readl" where
  "example_bus \<equiv> bus_readl 0xF0000000"

abbreviation example_bus_w :: "qemu_state iowrite32" where
  "example_bus_w \<equiv> bus_iowrite32 0xF0000000"

subsection \<open>The ioctl commands on the device\<close>

text \<open>Linux's documented encoding of an ioctl number.\<close>

definition linux_ioc :: "ioc \<Rightarrow> bool" where
  "linux_ioc ioc \<longleftrightarrow> (\<forall>dir t nr sz.
     ioc dir t nr sz = push_bit 30 dir OR push_bit 16 sz OR push_bit 8 t OR nr)"

lemma ioctl_numbers:
  assumes "linux_ioc ioc"
  shows "FPGA_CHAR_MODIFY_BATCH_FACTOR ioc = user_FPGA_CHAR_MODIFY_BATCH_FACTOR"
    "FPGA_CHAR_GET_MAX_NUM_VIRTINES ioc = user_FPGA_CHAR_GET_MAX_NUM_VIRTINES"
    "FPGA_CHAR_RING_DOORBELL ioc = user_FPGA_CHAR_RING_DOORBELL"
    "FPGA_CHAR_SET_SNAPSHOT ioc = user_FPGA_CHAR_SET_SNAPSHOT"
  using assms
  by (simp_all add: linux_ioc_def FPGA_CHAR_MODIFY_BATCH_FACTOR_def
      FPGA_CHAR_GET_MAX_NUM_VIRTINES_def FPGA_CHAR_RING_DOORBELL_def FPGA_CHAR_SET_SNAPSHOT_def
      user_FPGA_CHAR_MODIFY_BATCH_FACTOR_def user_FPGA_CHAR_GET_MAX_NUM_VIRTINES_def
      user_FPGA_CHAR_RING_DOORBELL_def user_FPGA_CHAR_SET_SNAPSHOT_def IOC_NONE_def IOC_WRITE_def
      IOC_READ_def IOCTL_MAGIC_def push_bit_eq_mult)

lemmas user_ioctls =
  user_FPGA_CHAR_MODIFY_BATCH_FACTOR_def user_FPGA_CHAR_GET_MAX_NUM_VIRTINES_def
  user_FPGA_CHAR_RING_DOORBELL_def user_FPGA_CHAR_SET_SNAPSHOT_def

lemma ioctl_simple_effects:
  assumes "attached base readl iowrite32" "linux_ioc ioc" "hw_of d fp = Some hw" "dev_mem hw = base"
  shows "fpga_char_ioctl ioc readl iowrite32 cfu poke d s u fp user_FPGA_CHAR_MODIFY_BATCH_FACTOR args =
      Some (0, s\<lparr>fpga := (fpga s)\<lparr>VirtineFpgaDevice.batch_factor := lo32 args\<rparr>\<rparr>, u)"
    "fpga_char_ioctl ioc readl iowrite32 cfu poke d s u fp user_FPGA_CHAR_GET_MAX_NUM_VIRTINES args =
      map_option (\<lambda>u. (0, s, u)) (poke u args (of_nat NUM_POSSIBLE_VIRTINES))"
    "fpga_char_ioctl ioc readl iowrite32 cfu poke d s u fp user_FPGA_CHAR_RING_DOORBELL args =
      Some (0, call [CondSignal] (s\<lparr>fpga := (fpga s)\<lparr>doorbell := True\<rparr>\<rparr>), u)"
proof -
  note at = attachedD [OF assms(1)] reg_in_bar
  note n = ioctl_numbers [OF assms(2)]
  have regs: "drv_BATCH_FACTOR_REG = BATCH_FACTOR_REG" "drv_DOORBELL_REG = DOORBELL_REG"
    "drv_MAX_NUM_VIRTINES_REG = MAX_NUM_VIRTINES_REG" by (simp_all add: reg_simps)
  show "fpga_char_ioctl ioc readl iowrite32 cfu poke d s u fp user_FPGA_CHAR_MODIFY_BATCH_FACTOR args =
      Some (0, s\<lparr>fpga := (fpga s)\<lparr>VirtineFpgaDevice.batch_factor := lo32 args\<rparr>\<rparr>, u)"
    using assms(3,4) by (simp add: fpga_char_ioctl_def n regs at dev_simps)
  show "fpga_char_ioctl ioc readl iowrite32 cfu poke d s u fp user_FPGA_CHAR_RING_DOORBELL args =
      Some (0, call [CondSignal] (s\<lparr>fpga := (fpga s)\<lparr>doorbell := True\<rparr>\<rparr>), u)"
    using assms(3,4) by (simp add: fpga_char_ioctl_def n regs at dev_simps user_ioctls)
  show "fpga_char_ioctl ioc readl iowrite32 cfu poke d s u fp user_FPGA_CHAR_GET_MAX_NUM_VIRTINES args =
      map_option (\<lambda>u. (0, s, u)) (poke u args (of_nat NUM_POSSIBLE_VIRTINES))"
    using assms(3,4)
    by (cases "poke u args (of_nat NUM_POSSIBLE_VIRTINES)")
      (simp_all add: fpga_char_ioctl_def n regs at dev_simps user_ioctls lo32_def
        NUM_POSSIBLE_VIRTINES_def)
qed

lemma ioctl_snapshot_effect:
  assumes "attached base readl iowrite32" "linux_ioc ioc" "hw_of d fp = Some hw" "dev_mem hw = base"
    "fst (cfu args) = lo32 a" "fst (cfu (args + 4)) = hi32 a"
    "fst (cfu (args + 8)) = lo32 sz" "fst (cfu (args + 12)) = hi32 sz"
  shows "\<exists>s'. fpga_char_ioctl ioc readl iowrite32 cfu poke d s u fp user_FPGA_CHAR_SET_SNAPSHOT args =
      Some (8, s', u) \<and>
    fpga s' = (fpga s)\<lparr>snapshot_size := sz AND 0xFFFFFFFF, snapshot_addr := a\<rparr>"
proof -
  note at = attachedD [OF assms(1)] reg_in_bar
  have regs: "drv_SNAPSHOT_SIZE_REG = SNAPSHOT_SIZE_REG" "drv_SNAPSHOT_ADDR_REG = SNAPSHOT_ADDR_REG"
    "SNAPSHOT_SIZE_REG mod 4 = 0" "SNAPSHOT_ADDR_REG mod 4 = 0"
    by (simp_all add: reg_simps)
  have words: "user_words cfu args 0 2 = [lo32 a, hi32 a]"
    "user_words cfu (args + 8) 0 2 = [lo32 sz, hi32 sz]"
    using assms(5-8) by (simp_all add: user_words_def word_addrs_def upt_rec add.commute [of 12])
  obtain s1 s2 s3 s4 where w:
    "virtine_fpga_mmio_write s SNAPSHOT_SIZE_REG (ucast (lo32 sz)) 4 = Some s1"
    "virtine_fpga_mmio_write s1 (SNAPSHOT_SIZE_REG + 4) (ucast (hi32 sz)) 4 = Some s2"
    "virtine_fpga_mmio_write s2 SNAPSHOT_ADDR_REG (ucast (lo32 a)) 4 = Some s3"
    "virtine_fpga_mmio_write s3 (SNAPSHOT_ADDR_REG + 4) (ucast (hi32 a)) 4 = Some s4"
    "fpga s4 = (fpga s)\<lparr>snapshot_size := sz AND 0xFFFFFFFF, snapshot_addr := a\<rparr>"
    using snapshot_write_pairs by blast
  have "fpga_char_write iowrite32 cfu d s fp (args + 8) 8 SNAPSHOT_SIZE_REG = Some (8, s2)"
    using write_words_eq [of 0 8 iowrite32 cfu s "args + 8" "base + SNAPSHOT_SIZE_REG"]
      assms(3,4) w(1,2) words regs at
    by (simp add: fpga_char_write_def word_addrs_def upt_rec add.assoc)
  moreover have "fpga_char_write iowrite32 cfu d s2 fp args 8 SNAPSHOT_ADDR_REG = Some (8, s4)"
    using write_words_eq [of 0 8 iowrite32 cfu s2 args "base + SNAPSHOT_ADDR_REG"]
      assms(3,4) w(3,4) words regs at
    by (simp add: fpga_char_write_def word_addrs_def upt_rec add.assoc)
  ultimately show ?thesis
    using w(5) regs ioctl_numbers [OF assms(2)]
    by (simp add: fpga_char_ioctl_def user_ioctls)
qed


subsection \<open>Properties of the character device\<close>

text \<open>
  A write to the device file is a sequence of 32-bit writes: the user's bytes go, four at a time
  and in order, to consecutive addresses from the file offset on; the length is rounded up to a
  multiple of four, in the accesses made and in the result; and an offset that is no multiple of
  four makes the call do nothing and report nothing written.
\<close>

lemma char_write_is_word_writes:
  assumes "hw_of d fp = Some hw"
  shows "fpga_char_write iowrite32 cfu d b fp buf len offset =
    (if offset mod 4 \<noteq> 0 then Some (0, b)
     else map_option (\<lambda>b'. (4 * int (words_of len), b'))
       (mmio_writes iowrite32 b
         (map (\<lambda>j. (fst (cfu (buf + of_nat (4 * j))), dev_mem hw + offset + of_nat (4 * j)))
              [0..<words_of len])))"
proof -
  have "zip (user_words cfu buf 0 k) (word_addrs a 0 k) =
      map (\<lambda>j. (fst (cfu (buf + of_nat (4 * j))), a + of_nat (4 * j))) [0..<k]" for a k
    by (rule nth_equalityI) (simp_all add: user_words_def word_addrs_def)
  then show ?thesis
    using assms write_words_eq [of 0 len iowrite32 cfu b buf "dev_mem hw + offset"]
    by (simp add: fpga_char_write_def option.map_comp comp_def)
qed

text \<open>
  C32. What a read of the device file does: for a length of one to eight bytes it makes one or two
  32-bit reads at the offset, and then always copies eight bytes to the user, whatever length
  was asked for.  A read of up to four bytes hands the upper half of an uninitialised stack
  variable to the user.
\<close>

theorem char_read_copies_eight_bytes:
  assumes "hw_of d fp = Some hw" "offset mod 4 = 0" "0 < len" "len \<le> 8"
  shows "fpga_char_read readl copy_to_user d b u stack fp buf len offset =
    map_option (\<lambda>(vs, b').
        let (u', left) = copy_to_user u buf
              (join32 (vs ! 0) (if len \<le> 4 then hi32 stack else vs ! 1))
        in (if left \<noteq> 0 then - EFAULT else 4 * int (words_of len), b', u'))
      (mmio_reads readl b (take (words_of len) [dev_mem hw + offset, dev_mem hw + offset + 4]))"
proof -
  have k: "words_of len = (if len \<le> 4 then 1 else 2)"
    using assms(3,4) by (auto simp: words_of_def)
  have r: "read_words readl b [lo32 stack, hi32 stack] 0 len (dev_mem hw + offset) =
    map_option (\<lambda>(vs, b). (4 * words_of len, vs @ drop (words_of len) [lo32 stack, hi32 stack], b))
      (mmio_reads readl b (word_addrs (dev_mem hw + offset) 0 (words_of len)))"
    using read_words_eq [of 0 len "[lo32 stack, hi32 stack]" readl b "dev_mem hw + offset"] k
    by (simp split: if_splits)
  show ?thesis
    using assms(1,2) r k
    by (auto simp: fpga_char_read_def fpga_char_read0_def word_addrs_def upt_rec Let_def
        split: if_splits prod.split bind_splits option.splits)
qed

theorem char_read_copies_eight_bytes_witness:
  "fpga_char_read (\<lambda>l a. Some (3, l @ [a])) (\<lambda>u a v. (u(a := v), 0)) example_driver [] (\<lambda>_. 0)
     0xDEADBEEF00000000 (Some 0) 0x100 4 16 =
   Some (4, [0xF0000010], (\<lambda>_. 0)(0x100 := join32 3 0xDEADBEEF))"
proof -
  have "hi32 0xDEADBEEF00000000 = 0xDEADBEEF" by (simp add: hi32_def drop_bit_eq_div)
  then show ?thesis
    by (subst char_read_copies_eight_bytes [OF example_driver_hw]) simp_all
qed

text \<open>
  C33. The read's buffer bound is the user's choice: on the attached device an aligned read inside the
  BAR overruns the eight-byte stack variable of \<open>fpga_char_read\<close> exactly when the user asks for more
  than eight bytes.
\<close>

theorem char_read_overflows_stack:
  assumes "attached base readl iowrite32" "hw_of d fp = Some hw" "dev_mem hw = base" "dev_ok s"
    "offset mod 4 = 0" "unat offset + 8 \<le> GiB"
  shows "fpga_char_read readl copy_to_user d s u stack fp buf len offset = None \<longleftrightarrow> 8 < len"
  using assms(2-6) by (rule mmio_bus.char_read_iff [OF attached_mmio_bus [OF assms(1)]])

theorem char_read_overflows_stack_witness:
  "fpga_char_read example_bus (\<lambda>u a v. (u, 0)) example_driver example_device (0 :: nat) 0 (Some 0) 0 9 832 = None"
proof -
  have "dev_mem example_hw = 0xF0000000" "unat (832 :: u64) + 8 \<le> GiB" by (simp_all add: GiB_def)
  from char_read_overflows_stack [OF attached_bus example_driver_hw this(1)
      dev_wf_ok [OF example_device_wf(1)] _ this(2), where len = 9 and u = "0 :: nat"
      and copy_to_user = "\<lambda>u a v. (u, 0)" and stack = 0 and buf = 0]
  show ?thesis by simp
qed

abbreviation linux_encoding :: ioc where
  "linux_encoding \<equiv> \<lambda>dir t nr sz. push_bit 30 dir OR push_bit 16 sz OR push_bit 8 t OR nr"

text \<open>
  C34. The interrupt handler depends on the file opened last: opening a second file makes the
  device's \<open>filep\<close> point to it; when that file is closed, \<open>filep\<close> keeps pointing to it and following
  it reaches freed memory, although the first file is still open and usable.
\<close>

theorem filep_dangles_after_release:
  assumes "fpga_dev d = Some h" "fpgas d h = Some hw" "hw_of d (Some fp1) \<noteq> None" "fp1 \<noteq> fp2"
    "files d fp2 = Some f" "privs d p = None"
  shows "\<exists>d1 d2 hw'. fpga_char_open (Some p) d m fp2 = Some (0, d1) \<and>
    fpga_char_release d1 fp2 = Some (0, d2) \<and> fpgas d2 h = Some hw' \<and> filep hw' = Some fp2 \<and>
    hw_of d1 (filep hw') \<noteq> None \<and> hw_of d2 (filep hw') = None \<and> hw_of d2 (Some fp1) \<noteq> None"
proof -
  from assms(3) obtain f1 p1 priv1 h1 where one: "files d fp1 = Some f1" "private_data f1 = Some p1"
    "privs d p1 = Some priv1" "fpga_hw priv1 = Some h1" "fpgas d h1 \<noteq> None"
    by (auto simp: hw_of_def split: bind_splits)
  from one(3) assms(6) have "p1 \<noteq> p" by auto
  with one assms show ?thesis
    by (auto simp: fpga_char_open_def fpga_char_release_def hw_of_def Let_def)
qed

theorem filep_dangles_after_release_witness:
  "\<exists>d1 d2 hw'. fpga_char_open (Some 1) example_driver 0 1 = Some (0, d1) \<and>
    fpga_char_release d1 1 = Some (0, d2) \<and> fpgas d2 0 = Some hw' \<and> hw_of d2 (filep hw') = None"
proof -
  have "fpga_dev example_driver = Some 0" "fpgas example_driver 0 = Some example_hw"
    "files example_driver 1 = Some \<lparr>private_data = None\<rparr>" "privs example_driver 1 = None"
    by (simp_all add: example_driver_def)
  moreover have "hw_of example_driver (Some 0) \<noteq> None" by (simp add: example_driver_hw)
  ultimately show ?thesis
    using filep_dangles_after_release [of example_driver 0 example_hw 0 1 "\<lparr>private_data = None\<rparr>" 1 0]
    by auto
qed

end
