(* ===== verification/PciDriver.thy ===== *)
theory PciDriver
  imports CharDev
begin

section \<open>The PCI driver\<close>

text \<open>
  \<open>fpga-char/fpga_char_main.c\<close> and the registration part of \<open>fpga-char/chardev.c\<close>: probe and remove
  as functions from what the kernel's services return (\<open>env\<close>) to the result and the calls made,
  in order, each with what it returned; and the interrupt handler, which drains the completed
  queue through \<open>_fpga_char_read\<close>.
\<close>

subsection \<open>Calls into the kernel\<close>

datatype kernel_call =
    Kzalloc bool | Kfree
  | PciEnableDevice int | PciEnableDeviceMem int | PciDisableDevice
  | PciRequestRegion int int | PciReleaseRegion int      \<comment> \<open>bar, and the result\<close>
  | PciSetDmaMask u64 | PciSetMaster
  | PciAllocIrqVectors nat nat int | PciFreeIrqVectors
  | RequestIrq int int | FreeIrq                         \<comment> \<open>flags, and the result\<close>
  | IoremapUc u64 u64 u64 | Iounmap u64
  | PciReadConfigWord | Ioread32 u64 | PciSetDrvdata nat
  | AllocChrdevRegion nat int | UnregisterChrdevRegion nat
  | ClassCreate u64 | ClassDestroy
  | CdevInit | CdevAdd nat int | CdevDel
  | DeviceCreate | DeviceDestroy
  | RequestThreadedIrq nat int | FreeIrqNumber nat       \<comment> \<open>the interrupt number, and the result\<close>
  | SetFpgaDev                                            \<comment> \<open>the store to the static \<open>fpga_dev\<close>\<close>

record env =
  kzalloced :: "nat option"
  enable_device :: int
  mem_bars :: int
  enable_device_mem :: int
  request_region :: int
  alloc_irq_vectors :: int
  irq_vector :: int
  irq_requested :: int
  resource_start :: u64
  resource_len :: u64
  ioremapped :: u64
  config_vendor :: u16
  config_device :: u16
  batch_read :: u32
  alloc_chrdev :: int
  class_created :: u64
  cdev_added :: int

definition ENODEV :: int where "ENODEV = 19"

definition NUM_IRQ_VECTORS :: nat where "NUM_IRQ_VECTORS = 1"

definition MAX_MINOR_DEVICES :: nat where "MAX_MINOR_DEVICES = 1"

definition VENDOR_ID :: u16 where "VENDOR_ID = 0x1172"

definition DEVICE_ID :: u16 where "DEVICE_ID = 0xe003"

text \<open>An \<open>ERR_PTR\<close>: one of the last 4095 addresses, no object lives there.\<close>

definition is_err_ptr :: "u64 \<Rightarrow> bool" where
  "is_err_ptr p \<longleftrightarrow> p \<ge> - 4095"

subsection \<open>Character device registration\<close>

definition create_char_devs ::
  "env \<Rightarrow> driver_state \<Rightarrow> nat \<Rightarrow> (int \<times> kernel_call list \<times> driver_state) option" where
  "create_char_devs e d n =
    (let error = alloc_chrdev e;
         tr = [AllocChrdevRegion MAX_MINOR_DEVICES error];
         could_not_alloc_chr_region = [UnregisterChrdevRegion MAX_MINOR_DEVICES];
         could_not_add_cdev = [CdevDel, ClassDestroy] @ could_not_alloc_chr_region in
     if error \<noteq> 0 then Some (error, tr @ could_not_alloc_chr_region, d)
     else let tr = tr @ [ClassCreate (class_created e)] in
     if class_created e = 0 then Some (error, tr @ could_not_alloc_chr_region, d)
     else if is_err_ptr (class_created e) then None
     else let tr = tr @ [CdevInit];
              error = cdev_added e;
              tr = tr @ [CdevAdd (MAX_MINOR_DEVICES - 1) error] in
     if error \<noteq> 0 then Some (error, tr @ could_not_add_cdev, d)
     else Some (0, tr @ [DeviceCreate, SetFpgaDev], d\<lparr>fpga_dev := Some n\<rparr>))"

definition destroy_char_devs :: "int \<times> kernel_call list" where
  "destroy_char_devs =
     (0, [DeviceDestroy, CdevDel, ClassDestroy, UnregisterChrdevRegion MAX_MINOR_DEVICES])"

subsection \<open>Probe and remove\<close>

text \<open>The structure as \<open>kzalloc\<close> returns it, and the store of a changed one.\<close>

definition zeroed_fpga :: fpga_device where
  "zeroed_fpga = \<lparr>drv_vendor_id = 0, drv_device_id = 0, dev_mem = 0, drv_batch_factor = 0, filep = None\<rparr>"

definition set_fpga :: "nat \<Rightarrow> fpga_device option \<Rightarrow> driver_state \<Rightarrow> driver_state" where
  "set_fpga n f d = d\<lparr>fpgas := (fpgas d)(n := f)\<rparr>"

definition fpga_probe :: "env \<Rightarrow> driver_state \<Rightarrow> (int \<times> kernel_call list \<times> driver_state) option" where
  "fpga_probe e d =
    (let could_not_enable_device = [];
         could_not_request_region = PciDisableDevice # could_not_enable_device;
         could_not_alloc_irq_vectors = [FreeIrq, PciFreeIrqVectors] @ could_not_request_region;
         ioremap_failed = PciReleaseRegion (mem_bars e) # could_not_alloc_irq_vectors;
         char_devs_failed = Iounmap (ioremapped e) # ioremap_failed in
     case kzalloced e of
       None \<Rightarrow> Some (- ENOMEM, [Kzalloc False], d)
     | Some n \<Rightarrow>
     let tr = [Kzalloc True]; fpga = zeroed_fpga; d = set_fpga n (Some fpga) d;
         error = enable_device e; tr = tr @ [PciEnableDevice error] in
     if error \<noteq> 0 then Some (error, tr @ could_not_enable_device, d)
     else let bar = mem_bars e; error = enable_device_mem e; tr = tr @ [PciEnableDeviceMem error] in
     if error \<noteq> 0 then Some (error, tr @ could_not_enable_device, d)
     else let error = request_region e; tr = tr @ [PciRequestRegion bar error] in
     if error \<noteq> 0 then Some (error, tr @ could_not_request_region, d)
     else let tr = tr @ [PciSetDmaMask 0xFFFFFFFF, PciSetMaster];
              error = alloc_irq_vectors e;
              tr = tr @ [PciAllocIrqVectors 1 NUM_IRQ_VECTORS error] in
     if error < int NUM_IRQ_VECTORS then Some (error, tr @ could_not_request_region, d)
     else let flags = irq_vector e; error = irq_requested e; tr = tr @ [RequestIrq flags error] in
     if error < 0 then Some (error, tr @ could_not_alloc_irq_vectors, d)
     else if resource_start e = 0 \<and> resource_len e = 0 then Some (- ENODEV, tr @ ioremap_failed, d)
     else let fpga = fpga\<lparr>dev_mem := ioremapped e\<rparr>; d = set_fpga n (Some fpga) d;
              tr = tr @ [IoremapUc (resource_start e) (resource_len e) (dev_mem fpga)] in
     if dev_mem fpga = 0 then Some (error, tr @ ioremap_failed, d)
     else let fpga = fpga\<lparr>drv_vendor_id := config_vendor e, drv_device_id := config_device e,
                           drv_batch_factor := batch_read e\<rparr>;
              d = set_fpga n (Some fpga) d;
              tr = tr @ [PciReadConfigWord, PciReadConfigWord,
                         Ioread32 (dev_mem fpga + drv_BATCH_FACTOR_REG)] in
     case create_char_devs e d n of
       None \<Rightarrow> None
     | Some (error, cs, d) \<Rightarrow>
         if error \<noteq> 0 then Some (error, tr @ cs @ char_devs_failed, d)
         else Some (0, tr @ cs @ [PciSetDrvdata n], d))"

text \<open>
  \<open>fpga_remove\<close>, given the driver data \<open>pci_get_drvdata\<close> returns and the BAR mask.
\<close>

definition fpga_remove ::
  "nat option \<Rightarrow> int \<Rightarrow> driver_state \<Rightarrow> (kernel_call list \<times> driver_state) option" where
  "fpga_remove drvdata bars d = do {
     let tr = snd destroy_char_devs;
     n \<leftarrow> drvdata;
     fpga \<leftarrow> fpgas d n;
     let tr = tr @ [Iounmap (dev_mem fpga)];
     let (tr, d) = (if drvdata \<noteq> None then (tr @ [Kfree], set_fpga n None d) else (tr, d));
     Some (tr @ [FreeIrq, PciFreeIrqVectors, PciReleaseRegion bars, PciDisableDevice], d)
   }"

subsection \<open>The interrupt handler\<close>

definition IRQ_HANDLED :: int where "IRQ_HANDLED = 1"

text \<open>
  \<open>found\<close> is the filled part of \<open>clean_virtines\<close>, its length the counter \<open>i\<close>; storing a
  101st element is behind the end of the array.
\<close>

function fetch_loop ::
  "'b readl \<Rightarrow> driver_state \<Rightarrow> nat option \<Rightarrow> 'b \<Rightarrow> u32 list \<Rightarrow> u64 list \<Rightarrow> (u64 list \<times> 'b) option" where
  "fetch_loop readl d fp b cv found =
    (case fpga_char_read0 readl d b fp cv 8 drv_CQ_HEAD_OFFSET_REG of
       None \<Rightarrow> None
     | Some (bytes_read, cv, b) \<Rightarrow>
         if bytes_read = 0 then Some (found, b)
         else let v = join32 (cv ! 0) (cv ! 1) in
           if v = 0 then Some (found, b)
           else if length found < drv_NUM_POSSIBLE_VIRTINES
           then fetch_loop readl d fp b cv (found @ [v])
           else None)"
  by pat_completeness auto
termination
  by (relation "measure (\<lambda>(r, d, fp, b, c, found). drv_NUM_POSSIBLE_VIRTINES - length found)") auto

declare fetch_loop.simps [simp del]

definition fetch_clean_virtines ::
  "'b readl \<Rightarrow> driver_state \<Rightarrow> 'b \<Rightarrow> nat \<Rightarrow> (int \<times> u64 list \<times> 'b) option" where
  "fetch_clean_virtines readl d b cookie = do {
     hw \<leftarrow> fpgas d cookie;
     (found, b) \<leftarrow> fetch_loop readl d (filep hw) b [0, 0] [];
     Some (IRQ_HANDLED, found, b)
   }"

subsection \<open>Draining the completed queue\<close>

context virtine_bus
begin

lemma fetch_loop_all:
  assumes "wf b" "hw_of d fp = Some hw" "dev_mem hw = base" "length cv = 2"
    "length found + length (cqs b) \<le> drv_NUM_POSSIBLE_VIRTINES"
  shows "\<exists>b'. fetch_loop readl d fp b cv found = Some (found @ cqs b, b') \<and>
    wf b' \<and> cqs b' = [] \<and> rqs b' = rqs b"
  using assms
proof (induction "cqs b" arbitrary: b cv found)
  case Nil
  with read0_pops [OF Nil.prems(2,3,1,4)] show ?case
    by (auto simp: fetch_loop.simps [of _ _ _ b])
next
  case (Cons v vs)
  from read0_pops [OF Cons.prems(2,3,1,4)] Cons.hyps(2) obtain v1 v2 b1 where
    r: "fpga_char_read0 readl d b fp cv 8 drv_CQ_HEAD_OFFSET_REG = Some (8, [v1, v2], b1)"
      "join32 v1 v2 = v" "wf b1" "cqs b1 = vs" "rqs b1 = rqs b"
    by (metis list.distinct(1) list.sel(1) list.sel(3))
  have "v \<noteq> 0" using cqs_non_null [OF Cons.prems(1)] Cons.hyps(2) by (metis list.set_intros(1))
  moreover have len: "length (cqs b) = Suc (length (cqs b1))"
    using Cons.hyps(2) r(4) by (metis length_Cons)
  have "length (found @ [v]) + length (cqs b1) \<le> drv_NUM_POSSIBLE_VIRTINES"
    "length found < drv_NUM_POSSIBLE_VIRTINES"
    using Cons.prems(5) len by simp_all
  moreover from this obtain b' where
    "fetch_loop readl d fp b1 [v1, v2] (found @ [v]) = Some ((found @ [v]) @ cqs b1, b')"
    "wf b'" "cqs b' = []" "rqs b' = rqs b1"
    using Cons.hyps(1) [OF r(4) [symmetric] r(3) Cons.prems(2,3), of "[v1, v2]" "found @ [v]"] by auto
  ultimately show ?case
    using r Cons.hyps(2) by (auto simp: fetch_loop.simps [of _ _ _ b] Let_def)
qed

end

text \<open>A bus on which every read delivers something: the queue never reads as empty.\<close>

definition never_dry :: "'b readl \<Rightarrow> bool" where
  "never_dry readl \<longleftrightarrow> (\<forall>b a. \<exists>v b'. readl b a = Some (v, b') \<and> v \<noteq> 0)"

lemma read0_endless:
  assumes "never_dry readl" "length cv = 2"
    "fpga_char_read0 readl d b fp cv 8 drv_CQ_HEAD_OFFSET_REG \<noteq> None"
  shows "\<exists>v1 v2 b'. fpga_char_read0 readl d b fp cv 8 drv_CQ_HEAD_OFFSET_REG = Some (8, [v1, v2], b') \<and>
    join32 v1 v2 \<noteq> 0"
proof -
  from assms(3) obtain hw where hw: "hw_of d fp = Some hw"
    by (auto simp: fpga_char_read0_def split: bind_splits)
  let ?a = "dev_mem hw + drv_CQ_HEAD_OFFSET_REG"
  obtain v1 b1 where 1: "readl b ?a = Some (v1, b1)" "v1 \<noteq> 0" using assms(1) unfolding never_dry_def by blast
  obtain v2 b2 where 2: "readl b1 (?a + 4) = Some (v2, b2)" using assms(1) unfolding never_dry_def by blast
  from 1(2) have "join32 v1 v2 \<noteq> 0" by (metis lo32_join32 lo32_0)
  moreover have "mmio_reads readl b (word_addrs ?a 0 2) = Some ([v1, v2], b2)"
    using 1 2 by (simp add: word_addrs_def upt_rec)
  ultimately show ?thesis
    using read_words_eq [of 0 8 cv readl b ?a] hw assms(2) by (simp add: fpga_char_read0_def reg_simps)
qed

lemma fetch_loop_overruns:
  assumes "never_dry readl"
    "length found \<le> drv_NUM_POSSIBLE_VIRTINES" "length cv = 2"
  shows "fetch_loop readl d fp b cv found = None"
  using assms(2,3)
proof (induction "drv_NUM_POSSIBLE_VIRTINES - length found" arbitrary: found b cv rule: less_induct)
  case less
  show ?case
  proof (cases "fpga_char_read0 readl d b fp cv 8 drv_CQ_HEAD_OFFSET_REG = None")
    case True
    then show ?thesis by (simp add: fetch_loop.simps [of _ _ _ b])
  next
    case False
    then obtain v1 v2 b1 where
      r: "fpga_char_read0 readl d b fp cv 8 drv_CQ_HEAD_OFFSET_REG = Some (8, [v1, v2], b1)"
      "join32 v1 v2 \<noteq> 0"
      using read0_endless [OF assms(1) less.prems(2)] by blast
    have "fetch_loop readl d fp b1 [v1, v2] (found @ [join32 v1 v2]) = None"
      if "length found < drv_NUM_POSSIBLE_VIRTINES"
      using that by (intro less.hyps) simp_all
    with r show ?thesis by (simp add: fetch_loop.simps [of _ _ _ b] Let_def)
  qed
qed

subsection \<open>Balance of the kernel resources\<close>

datatype resource =
  Memory | Enabled | Region | IrqVectors | IrqHandler | Mapping | ChrdevRegion | Class | Cdev | Device

text \<open>What a call acquires (\<open>1\<close>) and gives back (\<open>-1\<close>); a call that failed acquires nothing.\<close>

fun change :: "kernel_call \<Rightarrow> (resource \<times> int) list" where
  "change (Kzalloc ok) = (if ok then [(Memory, 1)] else [])"
| "change Kfree = [(Memory, -1)]"
| "change (PciEnableDevice r) = (if r = 0 then [(Enabled, 1)] else [])"
| "change (PciEnableDeviceMem r) = (if r = 0 then [(Enabled, 1)] else [])"
| "change PciDisableDevice = [(Enabled, -1)]"
| "change (PciRequestRegion bar r) = (if r = 0 then [(Region, 1)] else [])"
| "change (PciReleaseRegion bar) = [(Region, -1)]"
| "change (PciAllocIrqVectors lo hi r) = (if r \<ge> int lo then [(IrqVectors, 1)] else [])"
| "change PciFreeIrqVectors = [(IrqVectors, -1)]"
| "change (RequestIrq flags r) = (if r \<ge> 0 then [(IrqHandler, 1)] else [])"
| "change FreeIrq = [(IrqHandler, -1)]"
| "change (RequestThreadedIrq irq r) = (if r \<ge> 0 then [(IrqHandler, 1)] else [])"
| "change (FreeIrqNumber irq) = [(IrqHandler, -1)]"
| "change (IoremapUc start len p) = (if p \<noteq> 0 then [(Mapping, 1)] else [])"
| "change (Iounmap p) = [(Mapping, -1)]"
| "change (AllocChrdevRegion n r) = (if r = 0 then [(ChrdevRegion, 1)] else [])"
| "change (UnregisterChrdevRegion n) = [(ChrdevRegion, -1)]"
| "change (ClassCreate p) = (if p \<noteq> 0 then [(Class, 1)] else [])"
| "change ClassDestroy = [(Class, -1)]"
| "change (CdevAdd minor r) = (if r = 0 then [(Cdev, 1)] else [])"
| "change CdevDel = [(Cdev, -1)]"
| "change DeviceCreate = [(Device, 1)]"
| "change DeviceDestroy = [(Device, -1)]"
| "change _ = []"

definition balance :: "resource \<Rightarrow> kernel_call list \<Rightarrow> int" where
  "balance r tr = sum_list (map snd (filter (\<lambda>c. fst c = r) (concat (map change tr))))"

lemma balance_simps [simp]:
  "balance r [] = 0"
  "balance r (c # tr) = sum_list (map snd (filter (\<lambda>c. fst c = r) (change c))) + balance r tr"
  "balance r (tr @ tr') = balance r tr + balance r tr'"
  by (simp_all add: balance_def)

definition all_ok :: "env \<Rightarrow> bool" where
  "all_ok e \<longleftrightarrow> kzalloced e \<noteq> None \<and> enable_device e = 0 \<and> enable_device_mem e = 0 \<and>
     request_region e = 0 \<and> alloc_irq_vectors e = 1 \<and> irq_requested e = 0 \<and>
     resource_start e \<noteq> 0 \<and> resource_len e \<noteq> 0 \<and> ioremapped e \<noteq> 0 \<and>
     alloc_chrdev e = 0 \<and> class_created e \<noteq> 0 \<and> \<not> is_err_ptr (class_created e) \<and> cdev_added e = 0"

definition example_env :: env where
  "example_env = \<lparr>kzalloced = Some 0, enable_device = 0, mem_bars = 1, enable_device_mem = 0,
     request_region = 0, alloc_irq_vectors = 1, irq_vector = 24, irq_requested = 0,
     resource_start = 0xF0000000, resource_len = 0x40000000, ioremapped = 0xFFFFC90000000000,
     config_vendor = 0x1172, config_device = 0xE003, batch_read = 1,
     alloc_chrdev = 0, class_created = 0xFFFF888000000000, cdev_added = 0\<rparr>"

lemma example_env_ok: "all_ok example_env"
  by (simp add: all_ok_def example_env_def is_err_ptr_def)

lemma set_fpga_simps [simp]:
  "fpga_dev (set_fpga n f d) = fpga_dev d" "privs (set_fpga n f d) = privs d"
  "files (set_fpga n f d) = files d" "fpgas (set_fpga n f d) = (fpgas d)(n := f)"
  "module_refs (set_fpga n f d) = module_refs d"
  by (simp_all add: set_fpga_def)

lemmas driver_defs = fpga_probe_def create_char_devs_def fpga_remove_def destroy_char_devs_def
  zeroed_fpga_def Let_def

definition probed_fpga :: "env \<Rightarrow> fpga_device" where
  "probed_fpga e = \<lparr>drv_vendor_id = config_vendor e, drv_device_id = config_device e,
     dev_mem = ioremapped e, drv_batch_factor = batch_read e, filep = None\<rparr>"

lemma probe_ok:
  assumes "all_ok e" "kzalloced e = Some n"
  shows "\<exists>d'. fpga_probe e d = Some (0, [Kzalloc True, PciEnableDevice 0, PciEnableDeviceMem 0,
      PciRequestRegion (mem_bars e) 0, PciSetDmaMask 0xFFFFFFFF, PciSetMaster,
      PciAllocIrqVectors 1 1 1, RequestIrq (irq_vector e) 0,
      IoremapUc (resource_start e) (resource_len e) (ioremapped e),
      PciReadConfigWord, PciReadConfigWord, Ioread32 (ioremapped e + drv_BATCH_FACTOR_REG),
      AllocChrdevRegion 1 0, ClassCreate (class_created e), CdevInit, CdevAdd 0 0, DeviceCreate,
      SetFpgaDev, PciSetDrvdata n], d') \<and>
    fpga_dev d' = Some n \<and> fpgas d' = (fpgas d)(n \<mapsto> probed_fpga e) \<and>
    privs d' = privs d \<and> files d' = files d"
  using assms
  by (auto simp: driver_defs all_ok_def NUM_IRQ_VECTORS_def MAX_MINOR_DEVICES_def probed_fpga_def)

lemma fetch_all:
  assumes "attached base readl iowrite32" "fpgas d cookie = Some dev"
    "hw_of d (filep dev) = Some hw" "dev_mem hw = base" "dev_wf s"
  shows "\<exists>s'. fetch_clean_virtines readl d s cookie = Some (IRQ_HANDLED, cq_list s, s') \<and>
    dev_wf s' \<and> cq_list s' = [] \<and> rq_list s' = rq_list s"
proof -
  note bus = attached_virtine_bus [OF assms(1)]
  have "length [] + length (cq_list s) \<le> drv_NUM_POSSIBLE_VIRTINES"
    using virtine_bus.cqs_bounded [OF bus assms(5)]
    by (simp add: NUM_POSSIBLE_VIRTINES_def drv_NUM_POSSIBLE_VIRTINES_def)
  from virtine_bus.fetch_loop_all [OF bus assms(5,3,4) _ this, of "[0, 0]"] assms(2)
  show ?thesis by (auto simp: fetch_clean_virtines_def)
qed

subsection \<open>Properties of the interrupt handler\<close>

text \<open>
  C18. The interrupt handler fetches exactly the completed virtines: with the device's file open and the
  device otherwise quiet, \<open>fetch_clean_virtines\<close> returns, has read every address of the completed
  queue, in order, into its array, and leaves the completed queue empty and the ready queue alone.
\<close>

theorem fetch_returns_completed:
  assumes "attached base readl iowrite32" "fpgas d cookie = Some dev"
    "hw_of d (filep dev) = Some hw" "dev_mem hw = base" "dev_wf s"
  shows "\<exists>s'. fetch_clean_virtines readl d s cookie = Some (IRQ_HANDLED, cq_list s, s') \<and>
    dev_wf s' \<and> cq_list s' = [] \<and> rq_list s' = rq_list s"
  using assms by (rule fetch_all)

theorem fetch_returns_completed_witness:
  "\<exists>s'. fetch_clean_virtines example_bus example_driver example_device 0 = Some (IRQ_HANDLED, [], s')"
proof -
  have "fpgas example_driver 0 = Some example_hw" "dev_mem example_hw = 0xF0000000"
    "hw_of example_driver (filep example_hw) = Some example_hw"
    using example_driver_hw by (simp_all add: example_driver_def)
  from fetch_returns_completed [OF attached_bus this(1,3,2) example_device_wf(1)]
  show ?thesis unfolding example_device_wf(3) by blast
qed



text \<open>
  The handler dereferences \<open>fpga->filep\<close> unconditionally: between a successful probe and the
  first open of the device file (\<open>filep\<close> still null), or once the file it points to is closed, an
  interrupt faults.
\<close>

lemma fetch_needs_open_file:
  assumes "fpgas d cookie = Some dev" "hw_of d (filep dev) = None"
  shows "fetch_clean_virtines readl d b cookie = None"
  using assms by (simp add: fetch_clean_virtines_def fetch_loop.simps [of _ _ _ b] fpga_char_read0_def)

subsection \<open>Properties of probe and remove\<close>

text \<open>
  C27. A device that was bound and then removed: whatever the kernel answered, if \<open>fpga_probe\<close> returned 0
  after setting the driver data and creating the class, \<open>fpga_remove\<close> gives back everything that
  was acquired, but for one: the device was enabled twice and is disabled once.  The static
  \<open>fpga_dev\<close> is left pointing to the freed structure.
\<close>

theorem probe_remove_balance:
  assumes "fpga_probe e d = Some (0, tr, d1)" "PciSetDrvdata n \<in> set tr" "class_created e \<noteq> 0"
  shows "\<exists>tr' d2. fpga_remove (Some n) (mem_bars e) d1 = Some (tr', d2) \<and>
    (\<forall>r. balance r (tr @ tr') = (if r = Enabled then 1 else 0)) \<and>
    fpgas d2 n = None \<and> fpga_dev d2 = Some n"
proof -
  let ?rem = "[DeviceDestroy, CdevDel, ClassDestroy, UnregisterChrdevRegion MAX_MINOR_DEVICES,
      Iounmap (ioremapped e), Kfree, FreeIrq, PciFreeIrqVectors, PciReleaseRegion (mem_bars e),
      PciDisableDevice]"
  have bal: "balance r tr = (if r = Enabled then 2 else 1)" for r
    using assms
    by (cases r)
      (auto simp: driver_defs NUM_IRQ_VECTORS_def ENODEV_def ENOMEM_def split: if_splits option.splits)
  have all: "balance r (tr @ ?rem) = (if r = Enabled then 1 else 0)" for r
    by (cases r) (simp_all add: bal)
  have d1: "fpgas d1 n = Some (probed_fpga e)" "fpga_dev d1 = Some n"
    using assms
    by (auto simp: driver_defs NUM_IRQ_VECTORS_def ENODEV_def ENOMEM_def probed_fpga_def
        split: if_splits option.splits)
  have "fpga_remove (Some n) (mem_bars e) d1 = Some (?rem, set_fpga n None d1)"
    by (simp add: driver_defs d1(1) probed_fpga_def)
  then show ?thesis by (intro exI conjI allI, assumption, intro all) (simp_all add: d1)
qed

theorem probe_remove_balance_witness:
  "\<exists>tr d1 tr' d2. fpga_probe example_env example_driver = Some (0, tr, d1) \<and>
    fpga_remove (Some 0) 1 d1 = Some (tr', d2) \<and> balance Enabled (tr @ tr') = 1 \<and>
    balance Region (tr @ tr') = 0"
proof -
  have env: "kzalloced example_env = Some 0" "class_created example_env \<noteq> 0"
    "mem_bars example_env = 1" by (simp_all add: example_env_def)
  from probe_ok [OF example_env_ok env(1), of example_driver] obtain tr d1 where
    tr: "fpga_probe example_env example_driver = Some (0, tr, d1)" "PciSetDrvdata 0 \<in> set tr"
    by force
  from probe_remove_balance [OF tr env(2)] tr(1) env(3) show ?thesis
    by (auto simp del: balance_simps(3))
qed



text \<open>
  C29. Failures that are reported as success or crash: with everything else in order, a failed
  \<open>ioremap_uc\<close> makes the probe return 0 with all its resources given back and no driver data set, so
  that the kernel later calls \<open>fpga_remove\<close>, which dereferences the null driver data; and the error
  pointer that \<open>class_create\<close> returns on failure is not recognised but dereferenced.
\<close>

theorem probe_misreports_failures:
  assumes "all_ok e" "is_err_ptr p"
  shows "(\<exists>tr d'. fpga_probe (e\<lparr>ioremapped := 0\<rparr>) d = Some (0, tr, d') \<and>
      (\<forall>n. PciSetDrvdata n \<notin> set tr) \<and> balance IrqHandler tr = 0 \<and> balance Region tr = 0 \<and>
      fpga_remove None bars d' = None) \<and>
    fpga_probe (e\<lparr>class_created := p\<rparr>) d = None"
  using assms
  by (auto simp: driver_defs all_ok_def NUM_IRQ_VECTORS_def is_err_ptr_def)

theorem probe_misreports_failures_witness:
  "(\<exists>tr d'. fpga_probe (example_env\<lparr>ioremapped := 0\<rparr>) example_driver = Some (0, tr, d')) \<and>
    fpga_probe (example_env\<lparr>class_created := - 12\<rparr>) example_driver = None"
proof -
  have "is_err_ptr (- 12)" by (simp add: is_err_ptr_def)
  from probe_misreports_failures [OF example_env_ok this] show ?thesis by blast
qed



end
