(* ===== verification/OpenFiles.thy ===== *)
theory OpenFiles
  imports PciDriver
begin

section \<open>The open files of the driver\<close>

text \<open>
  The driver's pointers as a typed store: what a file, its private data and the device structure
  refer to, and that opening and releasing files, in any order and number, keeps every pointer an
  operation follows alive.  What the kernel guarantees of its objects is in the steps: a new \<open>struct
  file\<close> and a new \<open>kzalloc\<close>ed object are not in use, release is called once for each opened file
  and the \<open>struct file\<close> is freed after it.
\<close>

definition private_of :: "driver_state \<Rightarrow> nat \<Rightarrow> nat option" where
  "private_of d fp = Option.bind (files d fp) private_data"

definition opened_files :: "driver_state \<Rightarrow> nat set" where
  "opened_files d = dom (private_of d)"

definition typed_store :: "u64 \<Rightarrow> driver_state \<Rightarrow> bool" where
  "typed_store base d \<longleftrightarrow>
     (\<exists>h hw. fpga_dev d = Some h \<and> fpgas d h = Some hw \<and> dev_mem hw = base \<and>
        (\<forall>fp p. private_of d fp = Some p \<longrightarrow>
           (\<exists>priv. privs d p = Some priv \<and> fpga_hw priv = Some h))) \<and>
     (\<forall>fp fp' p. private_of d fp = Some p \<and> private_of d fp' = Some p \<longrightarrow> fp = fp')"

definition new_file :: "nat \<Rightarrow> driver_state \<Rightarrow> driver_state" where
  "new_file fp d = d\<lparr>files := (files d)(fp \<mapsto> \<lparr>private_data = None\<rparr>)\<rparr>"

definition free_file :: "nat \<Rightarrow> driver_state \<Rightarrow> driver_state" where
  "free_file fp d = d\<lparr>files := (files d)(fp := None)\<rparr>"

inductive file_step :: "driver_state \<Rightarrow> driver_state \<Rightarrow> bool" where
  opens: "files d fp = None \<Longrightarrow> privs d p = None \<Longrightarrow>
    fpga_char_open (Some p) (new_file fp d) minor fp = Some (0, d') \<Longrightarrow> file_step d d'"
| open_fails: "files d fp = None \<Longrightarrow>
    fpga_char_open None (new_file fp d) minor fp = Some (r, d') \<Longrightarrow> r < 0 \<Longrightarrow> file_step d (free_file fp d')"
| releases: "fp \<in> opened_files d \<Longrightarrow> fpga_char_release d fp = Some (0, d') \<Longrightarrow> file_step d (free_file fp d')"

lemma open_typed:
  assumes "typed_store base d" "files d fp = None" "privs d p = None"
  shows "\<exists>d'. fpga_char_open (Some p) (new_file fp d) minor fp = Some (0, d') \<and>
    private_of d' = (private_of d)(fp \<mapsto> p) \<and> typed_store base d' \<and> module_refs d' = module_refs d + 1"
proof -
  from assms(1) obtain h hw where h: "fpga_dev d = Some h" "fpgas d h = Some hw" "dev_mem hw = base"
    "\<And>fp p. private_of d fp = Some p \<Longrightarrow> \<exists>priv. privs d p = Some priv \<and> fpga_hw priv = Some h"
    and inj: "\<And>fp fp' p. private_of d fp = Some p \<Longrightarrow> private_of d fp' = Some p \<Longrightarrow> fp = fp'"
    unfolding typed_store_def by blast
  have new: "private_of d fp' \<noteq> Some p" for fp' using h(4) [of fp' p] assms(3) by auto
  let ?d = "d\<lparr>privs := (privs d)(p \<mapsto> \<lparr>minor_device_number = ucast minor, fpga_hw = Some h\<rparr>),
    fpgas := (fpgas d)(h \<mapsto> hw\<lparr>filep := Some fp\<rparr>), files := (files d)(fp \<mapsto> \<lparr>private_data = Some p\<rparr>),
    module_refs := module_refs d + 1\<rparr>"
  have "fpga_char_open (Some p) (new_file fp d) minor fp = Some (0, ?d)"
    using h(1,2) by (simp add: fpga_char_open_def new_file_def)
  moreover have priv: "private_of ?d = (private_of d)(fp \<mapsto> p)"
    by (rule ext) (simp add: private_of_def)
  moreover have "typed_store base ?d"
    unfolding typed_store_def priv using h new inj by (auto simp: split: if_splits)
  ultimately show ?thesis by (intro exI [of _ ?d]) simp
qed

lemma open_fails_typed:
  assumes "typed_store base d" "files d fp = None" "fpga_char_open None (new_file fp d) minor fp = Some (r, d')"
  shows "free_file fp d' = d" "r = - ENOMEM"
  using assms(2,3) by (auto simp: fpga_char_open_def new_file_def free_file_def fun_upd_idem)

lemma release_typed:
  assumes "typed_store base d" "fp \<in> opened_files d"
  shows "\<exists>d'. fpga_char_release d fp = Some (0, d') \<and> private_of (free_file fp d') = (private_of d)(fp := None) \<and>
    typed_store base (free_file fp d') \<and> module_refs (free_file fp d') = module_refs d - 1"
proof -
  from assms(2) obtain f p where f: "files d fp = Some f" "private_data f = Some p"
    by (auto simp: opened_files_def private_of_def split: bind_splits)
  then have p: "private_of d fp = Some p" by (simp add: private_of_def)
  let ?d = "d\<lparr>privs := (privs d)(p := None), module_refs := module_refs d - 1\<rparr>"
  have rel: "fpga_char_release d fp = Some (0, ?d)" using f by (simp add: fpga_char_release_def)
  have priv: "private_of (free_file fp ?d) = (private_of d)(fp := None)"
    by (rule ext) (simp add: private_of_def free_file_def)
  from assms(1) obtain h hw where h: "fpga_dev d = Some h" "fpgas d h = Some hw" "dev_mem hw = base"
    "\<And>fp p. private_of d fp = Some p \<Longrightarrow> \<exists>priv. privs d p = Some priv \<and> fpga_hw priv = Some h"
    and inj: "\<And>fp fp' p. private_of d fp = Some p \<Longrightarrow> private_of d fp' = Some p \<Longrightarrow> fp = fp'"
    unfolding typed_store_def by blast
  have other: "q \<noteq> p" if "fp' \<noteq> fp" "private_of d fp' = Some q" for fp' q
    using inj [of fp' p fp] p that by auto
  have "typed_store base (free_file fp ?d)"
    unfolding typed_store_def priv using h other inj by (auto simp: free_file_def split: if_splits)
  with rel priv show ?thesis by (intro exI [of _ ?d]) (simp add: free_file_def)
qed

lemma file_step_typed:
  assumes "file_step d d'" "typed_store base d" "finite (opened_files d)"
    "module_refs d = m + int (card (opened_files d))"
  shows "typed_store base d' \<and> finite (opened_files d') \<and> module_refs d' = m + int (card (opened_files d'))"
  using assms(1)
proof cases
  case (opens fp p minor)
  from open_typed [OF assms(2) opens(1,2), of minor] opens(3) have d': "private_of d' = (private_of d)(fp \<mapsto> p)"
    "typed_store base d'" "module_refs d' = module_refs d + 1" by auto
  have "fp \<notin> opened_files d" using opens(1) by (auto simp: opened_files_def private_of_def)
  with d' assms(3,4) show ?thesis by (simp add: opened_files_def)
next
  case (open_fails fp minor r d2)
  then show ?thesis using open_fails_typed [OF assms(2) open_fails(2,3)] assms by simp
next
  case (releases fp d2)
  from release_typed [OF assms(2) releases(2)] releases(1,3) have d': "private_of d' = (private_of d)(fp := None)"
    "typed_store base d'" "module_refs d' = module_refs d - 1" by auto
  then have "opened_files d' = opened_files d - {fp}" by (auto simp: opened_files_def)
  moreover from this have "card (opened_files d) = Suc (card (opened_files d'))"
    using card.remove [OF assms(3) releases(2)] by simp
  ultimately show ?thesis using d'(2,3) assms(3,4) by simp
qed

lemma typed_hw_of:
  assumes "typed_store base d" "fp \<in> opened_files d"
  shows "\<exists>hw. hw_of d (Some fp) = Some hw \<and> dev_mem hw = base"
  using assms by (fastforce simp: typed_store_def opened_files_def private_of_def hw_of_def split: bind_splits)

lemma file_steps_typed:
  assumes "file_step\<^sup>*\<^sup>* d d'" "typed_store base d" "opened_files d = {}"
  shows "typed_store base d' \<and> finite (opened_files d') \<and>
    module_refs d' = module_refs d + int (card (opened_files d'))"
  using assms
proof (induction rule: rtranclp_induct)
  case (step d1 d2)
  then show ?case using file_step_typed [OF step.hyps(2), of base "module_refs d"] by simp
qed simp

lemma probed_typed:
  assumes "all_ok e" "kzalloced e = Some n" "opened_files d = {}" "fpga_probe e d = Some (0, tr, d')"
  shows "typed_store (ioremapped e) d'" "opened_files d' = {}"
proof -
  from probe_ok [OF assms(1,2), of d] assms(4) have d': "fpga_dev d' = Some n"
    "fpgas d' = (fpgas d)(n \<mapsto> probed_fpga e)" "files d' = files d" by auto
  then have "private_of d' = private_of d" by (simp add: private_of_def fun_eq_iff)
  then show "opened_files d' = {}" using assms(3) by (simp add: opened_files_def)
  with d' show "typed_store (ioremapped e) d'"
    by (auto simp: typed_store_def opened_files_def probed_fpga_def)
qed

subsection \<open>Properties of the open files\<close>

text \<open>
  C10. The driver's pointers are well typed: after a successful probe and any sequence of opens, failed
  opens and releases, every file that is open leads through its private data to the device
  structure with the BAR mapped by the probe, so no file operation on it follows a null or dangling
  pointer; opening another file succeeds and keeps this so; and the module's reference
  count has grown by exactly the number of open files.
\<close>

theorem open_files_stay_typed:
  assumes "all_ok e" "kzalloced e = Some n" "opened_files d0 = {}" "fpga_probe e d0 = Some (0, tr, d1)"
    "file_step\<^sup>*\<^sup>* d1 d"
  shows "(\<forall>fp \<in> opened_files d. \<exists>hw. hw_of d (Some fp) = Some hw \<and> dev_mem hw = ioremapped e) \<and>
    (\<forall>fp p minor. files d fp = None \<longrightarrow> privs d p = None \<longrightarrow>
       (\<exists>d'. fpga_char_open (Some p) (new_file fp d) minor fp = Some (0, d') \<and>
          opened_files d' = insert fp (opened_files d) \<and> file_step d d')) \<and>
    module_refs d = module_refs d1 + int (card (opened_files d))"
proof -
  from file_steps_typed [OF assms(5) probed_typed [OF assms(1-4)]]
  have t: "typed_store (ioremapped e) d" "module_refs d = module_refs d1 + int (card (opened_files d))"
    by simp_all
  have "\<exists>d'. fpga_char_open (Some p) (new_file fp d) minor fp = Some (0, d') \<and>
      opened_files d' = insert fp (opened_files d) \<and> file_step d d'"
    if new: "files d fp = None" "privs d p = None" for fp p minor
    using open_typed [OF t(1) new, of minor] file_step.opens [OF new, of minor]
    by (auto simp: opened_files_def)
  with t typed_hw_of [OF t(1)] show ?thesis by blast
qed

text \<open>The driver before the probe: no device and no file.\<close>

definition unbound_driver :: driver_state where
  "unbound_driver = \<lparr>fpga_dev = None, fpgas = Map.empty, privs = Map.empty, files = Map.empty, module_refs = 0\<rparr>"

theorem open_files_stay_typed_witness:
  "\<exists>tr d1 d hw. fpga_probe example_env unbound_driver = Some (0, tr, d1) \<and> file_step\<^sup>*\<^sup>* d1 d \<and>
    opened_files d = {7} \<and> hw_of d (Some 7) = Some hw \<and> dev_mem hw = 0xFFFFC90000000000"
proof -
  have e: "kzalloced example_env = Some 0" "ioremapped example_env = 0xFFFFC90000000000"
    by (simp_all add: example_env_def)
  have none: "opened_files unbound_driver = {}"
    by (auto simp: opened_files_def private_of_def unbound_driver_def)
  from probe_ok [OF example_env_ok e(1), of unbound_driver] obtain tr d1 where
    d1: "fpga_probe example_env unbound_driver = Some (0, tr, d1)" "files d1 = Map.empty" "privs d1 = Map.empty"
    by (auto simp: unbound_driver_def)
  note typed = open_files_stay_typed [OF example_env_ok e(1) none d1(1)]
  have "files d1 7 = None" "privs d1 5 = None" "opened_files d1 = {}"
    using d1(2,3) probed_typed(2) [OF example_env_ok e(1) none d1(1)] by simp_all
  with typed [OF rtranclp.rtrancl_refl] obtain d where d: "file_step d1 d" "opened_files d = {7}" by blast
  with typed [of d] e(2) d1(1) show ?thesis by (metis r_into_rtranclp singletonI)
qed

text \<open>
  Nothing keeps the device structure alive for the files: removing the device while a file is open
  frees it, and the next operation on the file follows a dangling pointer.
\<close>

lemma remove_breaks_open_files:
  assumes "typed_store base d" "fp \<in> opened_files d" "fpga_dev d = Some n"
    "fpga_remove (Some n) bars d = Some (tr, d')"
  shows "hw_of d' (Some fp) = None"
proof -
  from assms(4) have "d' = set_fpga n None d"
    by (auto simp: driver_defs split: bind_splits)
  moreover obtain f p where f: "files d fp = Some f" "private_data f = Some p"
    using assms(2) by (auto simp: opened_files_def private_of_def split: bind_splits)
  then have "private_of d fp = Some p" by (simp add: private_of_def)
  with assms(1,3) obtain priv where "privs d p = Some priv" "fpga_hw priv = Some n"
    unfolding typed_store_def by fastforce
  ultimately show ?thesis using f by (simp add: hw_of_def)
qed

end
