(* ===== verification/EchoDriver.thy ===== *)
theory EchoDriver
  imports PciDriver
begin

section \<open>The echo driver\<close>

text \<open>
  \<open>pcie-echo/pcie_fpga_echo.c\<close>: a PCI driver for the same vendor and device ID whose probe writes
  one word to offset 0 of the BAR and reads it back.  The kernel's answers, the calls and their
  balance are those of the theory \<open>PciDriver\<close>; \<open>IoremapUc\<close> also stands for the plain \<open>ioremap\<close>
  used here.  \<open>drvdata\<close> is the mapped address in the structure the driver data points to.
\<close>

definition echo_VENDOR_ID :: u16 where "echo_VENDOR_ID = 0x1172"

definition echo_DEVICE_ID :: u16 where "echo_DEVICE_ID = 0xe003"

definition release_device :: "int \<Rightarrow> kernel_call list" where
  "release_device bars = [PciReleaseRegion bars, PciDisableDevice]"

definition write_sample_data :: "'b iowrite32 \<Rightarrow> 'b \<Rightarrow> u64 option \<Rightarrow> u32 \<Rightarrow> 'b option" where
  "write_sample_data iowrite32 b drvdata data =
     (case drvdata of None \<Rightarrow> Some b | Some mem \<Rightarrow> iowrite32 b data mem)"

text \<open>\<open>data\<close> is what the caller's variable holds before the call.\<close>

definition read_sample_data :: "'b readl \<Rightarrow> 'b \<Rightarrow> u64 option \<Rightarrow> u32 \<Rightarrow> (u32 \<times> 'b) option" where
  "read_sample_data ioread32 b drvdata data =
     (case drvdata of None \<Rightarrow> Some (data, b) | Some mem \<Rightarrow> ioread32 b mem)"

definition run_test :: "'b readl \<Rightarrow> 'b iowrite32 \<Rightarrow> 'b \<Rightarrow> u64 option \<Rightarrow> u32 \<Rightarrow> (int \<times> 'b) option" where
  "run_test ioread32 iowrite32 b drvdata data_read = do {
     let test_data = 0xDEADBEEF;
     b \<leftarrow> write_sample_data iowrite32 b drvdata test_data;
     (data_read, b) \<leftarrow> read_sample_data ioread32 b drvdata data_read;
     Some (of_bool (data_read \<noteq> test_data), b)
   }"

definition echo_probe ::
  "'b readl \<Rightarrow> 'b iowrite32 \<Rightarrow> env \<Rightarrow> 'b \<Rightarrow> u32 \<Rightarrow> (int \<times> kernel_call list \<times> 'b) option" where
  "echo_probe ioread32 iowrite32 e b junk =
    (let error = enable_device e; tr = [PciEnableDevice error] in
     if error \<noteq> 0 then Some (error, tr, b)
     else let bar = mem_bars e; error = enable_device_mem e; tr = tr @ [PciEnableDeviceMem error] in
     if error \<noteq> 0 then Some (error, tr, b)
     else let error = request_region e; tr = tr @ [PciRequestRegion bar error] in
     if error \<noteq> 0 then Some (error, tr @ [PciDisableDevice], b)
     else let tr = tr @ [Kzalloc (kzalloced e \<noteq> None)] in
     if kzalloced e = None then Some (- ENOMEM, tr @ release_device bar, b)
     else let dev_mem = ioremapped e;
              tr = tr @ [IoremapUc (resource_start e) (resource_len e) dev_mem, PciSetDrvdata (the (kzalloced e)),
                         PciReadConfigWord, PciReadConfigWord] in
     do {
       (error, b) \<leftarrow> run_test ioread32 iowrite32 b (Some dev_mem) junk;
       Some (error, tr, b)
     })"

definition echo_remove :: "u64 option \<Rightarrow> int \<Rightarrow> kernel_call list" where
  "echo_remove drvdata bars = (if drvdata \<noteq> None then [Kfree] else []) @ release_device bars"

lemma run_test_eq:
  "run_test ioread32 iowrite32 b (Some a) junk =
     Option.bind (iowrite32 b 0xDEADBEEF a)
       (\<lambda>b. map_option (\<lambda>(v, b). (of_bool (v \<noteq> 0xDEADBEEF), b)) (ioread32 b a))"
  by (auto simp: run_test_def write_sample_data_def read_sample_data_def split: bind_splits)

lemma pop_head_derefs: "pop_head q = Some (v, q') \<Longrightarrow> deref q (head_offset q) = Some v"
  by (auto simp: pop_head_def split: bind_splits if_splits)

subsection \<open>Properties of the echo driver\<close>

text \<open>
  The echo test against the virtine device, which answers to the same IDs: the word written to
  offset 0 is ignored and the read returns the low half of the oldest waiting virtine, so the
  test changes nothing and passes only if that half happens to be the test's word.
\<close>

lemma echo_test_on_virtine_device:
  assumes "attached base ioread32 iowrite32" "dev_wf s"
  shows "run_test ioread32 iowrite32 s (Some base) junk =
    Some (of_bool (rq_list s = [] \<or> lo32 (hd (rq_list s)) \<noteq> 0xDEADBEEF), s)"
proof -
  have bar: "in_bar base (base + RQ_HEAD_OFFSET_REG)" by (simp add: in_bar_def reg_simps GiB_def)
  note at = attachedD [OF assms(1) bar]
  have "virtine_fpga_mmio_write s RQ_HEAD_OFFSET_REG (ucast (0xDEADBEEF :: u32)) 4 = Some s"
    by (rule mmio_write_frame) (simp add: reg_simps)
  then have w: "iowrite32 s 0xDEADBEEF base = Some s"
    using at(2) by (simp add: reg_simps)
  have rq: "ring_wf (rq (fpga s))" using assms(2) by (simp add: dev_wf_def)
  have "deref (rq (fpga s)) (head_offset (rq (fpga s))) =
      Some (if rq_list s = [] then 0 else hd (rq_list s))"
    using ring_fifo.popE [OF rq] pop_head_derefs by metis
  then have "virtine_fpga_mmio_read s RQ_HEAD_OFFSET_REG 4 =
      Some (if rq_list s = [] then 0 else hd (rq_list s), s)"
    by (simp add: dev_simps)
  then have r: "ioread32 s base = Some (lo32 (if rq_list s = [] then 0 else hd (rq_list s)), s)"
    using at(1) [of s] by (simp add: regs(1))
  show ?thesis unfolding run_test_eq by (simp add: w r)
qed

text \<open>
  What the echo driver leaves behind: when its probe passes the test and the device is removed, the
  mapping is never undone and the device, enabled twice, is disabled once; everything else is
  given back.
\<close>

lemma echo_remove_balance:
  assumes "echo_probe ioread32 iowrite32 e b junk = Some (0, tr, b')" "ioremapped e \<noteq> 0"
  shows "balance r (tr @ echo_remove (Some (ioremapped e)) (mem_bars e)) =
    (if r = Enabled \<or> r = Mapping then 1 else 0)"
proof -
  from assms have "tr = [PciEnableDevice 0, PciEnableDeviceMem 0, PciRequestRegion (mem_bars e) 0,
      Kzalloc True, IoremapUc (resource_start e) (resource_len e) (ioremapped e),
      PciSetDrvdata (the (kzalloced e)),
      PciReadConfigWord, PciReadConfigWord]"
    by (auto simp: echo_probe_def Let_def ENOMEM_def split: if_splits bind_splits)
  then show ?thesis
    using assms(2) by (cases r) (simp_all add: echo_remove_def release_device_def)
qed

end
