(* ===== verification/SampleChar.thy ===== *)
theory SampleChar
  imports Prelude
begin

section \<open>The sample character device\<close>

text \<open>
  \<open>sample-char/sample_char.c\<close>: a message device with one static buffer.  \<open>msg_at\<close> is the address of
  \<open>msg\<close>, \<open>msg_last_char\<close> a 64-bit pointer.  \<open>copy_from_user from n\<close> gives the \<open>n\<close> bytes that end up
  in the destination (Linux pads what it could not copy with zeros) and how many were not copied;
  \<open>copy_to_user u to from n\<close> changes user memory \<open>u\<close> and gives how many bytes were not copied.
  A copy of more than 100 bytes into \<open>msg\<close> is undefined.
\<close>

definition BUF_LEN :: nat where "BUF_LEN = 100"

record sample_state =
  major_num :: int
  msg_at :: u64
  msg :: "u8 list"
  msg_last_char :: u64

definition working_string :: "u8 list" where
  "working_string = [72, 101, 108, 108, 111, 32, 87, 111, 114, 108, 100, 0, 0]"   \<comment> \<open>\<open>"Hello World\0"\<close>\<close>

definition sample_char_init :: "int \<Rightarrow> sample_state \<Rightarrow> int \<times> sample_state" where
  "sample_char_init register_chrdev st =
    (let st = st\<lparr>major_num := register_chrdev\<rparr> in
     if major_num st < 0 then (major_num st, st) else (0, st))"

definition sample_char_open :: "sample_state \<Rightarrow> int \<times> sample_state" where
  "sample_char_open st =
    (let st = st\<lparr>msg := fold (\<lambda>i m. m[i := working_string ! i]) [0..<12] (msg st)\<rparr>;
         st = st\<lparr>msg_last_char := msg_at st + 10\<rparr>
     in (0, st))"

definition sample_char_release :: "sample_state \<Rightarrow> int \<times> sample_state" where
  "sample_char_release st = (0, st\<lparr>msg_last_char := 0\<rparr>)"

definition sample_char_read ::
  "('u \<Rightarrow> u64 \<Rightarrow> u64 \<Rightarrow> nat \<Rightarrow> 'u \<times> nat) \<Rightarrow> sample_state \<Rightarrow> 'u \<Rightarrow> u64 \<Rightarrow> nat \<Rightarrow> int \<times> sample_state \<times> 'u" where
  "sample_char_read copy_to_user st u buf len =
    (let st = st\<lparr>msg_last_char := msg_last_char st + 10\<rparr> in
     if msg_last_char st = msg_at st then (0, st, u)
     else let (u, ret) = copy_to_user u (msg_at st) buf len;
              st = st\<lparr>msg_last_char := msg_at st\<rparr>
          in (int ret, st, u))"

definition sample_char_write ::
  "(u64 \<Rightarrow> nat \<Rightarrow> u8 list \<times> nat) \<Rightarrow> sample_state \<Rightarrow> u64 \<Rightarrow> nat \<Rightarrow> (int \<times> sample_state) option" where
  "sample_char_write copy_from_user st buf len =
    (if msg_last_char st = msg_at st + (of_nat BUF_LEN - 1) then Some (0, st)
     else if len > BUF_LEN then None
     else let (bytes, ret) = copy_from_user buf len;
              st = st\<lparr>msg := bytes @ drop len (msg st)\<rparr>;
              st = st\<lparr>msg_last_char := msg_at st + (of_nat len - 1)\<rparr>
          in Some (int ret, st))"

definition sample_char_llseek :: "sample_state \<Rightarrow> int \<times> sample_state" where
  "sample_char_llseek st = (0, st\<lparr>msg_last_char := msg_at st\<rparr>)"

subsection \<open>Sequences of operations\<close>

datatype sample_op = Open | Release | Read u64 nat | Write u64 nat | Seek

text \<open>One operation by a user program; \<open>cfu\<close> and \<open>ctu\<close> are the copies from and to user memory.\<close>

fun sample_step ::
  "(u64 \<Rightarrow> nat \<Rightarrow> u8 list \<times> nat) \<Rightarrow> ('u \<Rightarrow> u64 \<Rightarrow> u64 \<Rightarrow> nat \<Rightarrow> 'u \<times> nat) \<Rightarrow>
   sample_state \<times> 'u \<Rightarrow> sample_op \<Rightarrow> (sample_state \<times> 'u) option" where
  "sample_step cfu ctu (st, u) Open = Some (snd (sample_char_open st), u)"
| "sample_step cfu ctu (st, u) Release = Some (snd (sample_char_release st), u)"
| "sample_step cfu ctu (st, u) (Read buf len) = Some (snd (sample_char_read ctu st u buf len))"
| "sample_step cfu ctu (st, u) (Write buf len) =
     map_option (\<lambda>(ret, st). (st, u)) (sample_char_write cfu st buf len)"
| "sample_step cfu ctu (st, u) Seek = Some (snd (sample_char_llseek st), u)"

fun sample_run ::
  "(u64 \<Rightarrow> nat \<Rightarrow> u8 list \<times> nat) \<Rightarrow> ('u \<Rightarrow> u64 \<Rightarrow> u64 \<Rightarrow> nat \<Rightarrow> 'u \<times> nat) \<Rightarrow>
   sample_state \<times> 'u \<Rightarrow> sample_op list \<Rightarrow> (sample_state \<times> 'u) option" where
  "sample_run cfu ctu w [] = Some w"
| "sample_run cfu ctu w (op # ops) = Option.bind (sample_step cfu ctu w op) (\<lambda>w. sample_run cfu ctu w ops)"

text \<open>
  Documented behaviour of the kernel's copies: \<open>copy_from_user\<close> fills the whole destination, and
  \<open>copy_to_user\<close> to an address that is not a user address copies nothing and says so.
\<close>

definition fills :: "(u64 \<Rightarrow> nat \<Rightarrow> u8 list \<times> nat) \<Rightarrow> bool" where
  "fills cfu \<longleftrightarrow> (\<forall>a n. length (fst (cfu a n)) = n \<and> snd (cfu a n) \<le> n)"

definition refuses :: "('u \<Rightarrow> u64 \<Rightarrow> u64 \<Rightarrow> nat \<Rightarrow> 'u \<times> nat) \<Rightarrow> u64 \<Rightarrow> bool" where
  "refuses ctu to \<longleftrightarrow> (\<forall>u from n. ctu u to from n = (u, n))"

definition msg_ok :: "u64 \<Rightarrow> sample_state \<Rightarrow> bool" where
  "msg_ok a st \<longleftrightarrow> msg_at st = a \<and> length (msg st) = BUF_LEN"

lemma length_fold_update [simp]: "length (fold (\<lambda>i m. m[i := f i]) is m) = length m"
  by (induction "is" arbitrary: m) simp_all

lemma fillsD: "fills cfu \<Longrightarrow> cfu a n = (bytes, ret) \<Longrightarrow> length bytes = n"
  by (metis fills_def fst_conv)

lemma sample_step_ok:
  assumes "msg_ok a st" "fills cfu" "refuses ctu a" "sample_step cfu ctu (st, u) op = Some (st', u')"
  shows "msg_ok a st' \<and> u' = u"
  using assms
  by (cases op)
    (auto simp: msg_ok_def refuses_def sample_char_open_def sample_char_release_def
      sample_char_llseek_def sample_char_read_def sample_char_write_def Let_def
      dest: fillsD split: if_splits prod.splits)

lemma sample_run_ok:
  assumes "msg_ok a st" "fills cfu" "refuses ctu a" "sample_run cfu ctu (st, u) ops = Some (st', u')"
  shows "msg_ok a st' \<and> u' = u"
  using assms
proof (induction ops arbitrary: st u)
  case (Cons op ops)
  from Cons.prems(4) obtain st1 u1 where
    "sample_step cfu ctu (st, u) op = Some (st1, u1)" "sample_run cfu ctu (st1, u1) ops = Some (st', u')"
    by (auto split: bind_splits)
  with sample_step_ok [OF Cons.prems(1-3)] Cons.IH Cons.prems(2,3) show ?case by blast
qed simp

subsection \<open>Properties of the sample device\<close>


abbreviation example_sample :: sample_state where
  "example_sample \<equiv> \<lparr>major_num = 240, msg_at = 0xFFFF888000000000, msg = replicate BUF_LEN 0, msg_last_char = 0\<rparr>"


text \<open>
  What a write to the sample device does: unless the buffer's end is marked as reached, a message of
  up to 100 bytes replaces the beginning of the buffer and the call returns the number of bytes
  \<^emph>\<open>not\<close> copied, 0 for success; a longer one overruns the buffer; and after a message of exactly 100
  bytes every further write is refused until a seek, a read or a reopening.
\<close>

lemma sample_write_effect:
  assumes "msg_ok a st" "fills cfu" "msg_last_char st \<noteq> a + 99"
  shows "(BUF_LEN < len \<longrightarrow> sample_char_write cfu st buf len = None) \<and>
    (len \<le> BUF_LEN \<longrightarrow> (\<exists>st'. sample_char_write cfu st buf len = Some (int (snd (cfu buf len)), st') \<and>
       take len (msg st') = fst (cfu buf len) \<and> drop len (msg st') = drop len (msg st) \<and>
       (len = BUF_LEN \<longrightarrow> sample_char_write cfu st' buf n = Some (0, st'))))"
proof -
  have at: "msg_at st = a" "length (msg st) = BUF_LEN" using assms(1) by (simp_all add: msg_ok_def)
  have last: "of_nat BUF_LEN - 1 = (99 :: u64)" by (simp add: BUF_LEN_def)
  have n: "length (fst (cfu buf len)) = len" using assms(2) by (simp add: fills_def)
  let ?st' = "st\<lparr>msg := fst (cfu buf len) @ drop len (msg st), msg_last_char := a + (of_nat len - 1)\<rparr>"
  have "sample_char_write cfu st buf len =
      (if BUF_LEN < len then None else Some (int (snd (cfu buf len)), ?st'))"
    using assms(3) at last by (simp add: sample_char_write_def Let_def split_beta)
  moreover have "sample_char_write cfu ?st' buf n = Some (0, ?st')" if "len = BUF_LEN"
    using at that by (simp add: sample_char_write_def)
  ultimately show ?thesis using n by auto
qed

end
