(* ===== verification/ExampleDriver.thy ===== *)
theory ExampleDriver
  imports PciDriver
begin

section \<open>The example driver\<close>

text \<open>
  \<open>example/example_module.c\<close>, the sample PCI driver the others were written after.  The kernel's answers,
  the calls and their balance are those of the theory \<open>PciDriver\<close>; \<open>IoremapUc\<close> stands for the plain
  \<open>ioremap\<close> used here and \<open>alloc_irq_vectors\<close> for the answer to a request of exactly three vectors.
  \<open>hwmem\<close> in the driver data is the mapped address.
\<close>

definition my_VENDOR_ID :: u16 where "my_VENDOR_ID = 0x010F"

definition my_DEVICE_ID :: u16 where "my_DEVICE_ID = 0x0F0E"

definition my_release_device :: "int \<Rightarrow> kernel_call list" where
  "my_release_device bars = [FreeIrqNumber 42, PciReleaseRegion bars, PciDisableDevice]"

definition my_irq_handler :: "int \<Rightarrow> int" where
  "my_irq_handler irq = IRQ_HANDLED"

definition set_interrupts :: "env \<Rightarrow> int \<times> kernel_call list" where
  "set_interrupts e =
    (let ret = alloc_irq_vectors e; tr = [PciAllocIrqVectors 3 3 ret] in
     if ret < 0 then (ret, tr)
     else (irq_requested e, tr @ [RequestThreadedIrq 42 (irq_requested e)]))"

definition my_write_sample_data :: "'b iowrite32 \<Rightarrow> 'b \<Rightarrow> u64 option \<Rightarrow> 'b option" where
  "my_write_sample_data iowrite32 b drvdata =
    (let data_to_write = 0xDEADBEEF in
     case drvdata of None \<Rightarrow> Some b | Some hwmem \<Rightarrow> iowrite32 b data_to_write hwmem)"

definition my_driver_probe ::
  "'b iowrite32 \<Rightarrow> env \<Rightarrow> 'b \<Rightarrow> (int \<times> kernel_call list \<times> 'b) option" where
  "my_driver_probe iowrite32 e b =
    (let tr = [PciReadConfigWord, PciReadConfigWord];
         bar = mem_bars e;
         err = enable_device_mem e; tr = tr @ [PciEnableDeviceMem err] in
     if err \<noteq> 0 then Some (err, tr, b)
     else let err = request_region e; tr = tr @ [PciRequestRegion bar err] in
     if err \<noteq> 0 then Some (err, tr @ [PciDisableDevice], b)
     else let tr = tr @ [Kzalloc (kzalloced e \<noteq> None)] in
     case kzalloced e of
       None \<Rightarrow> Some (- ENOMEM, tr @ my_release_device bar, b)
     | Some n \<Rightarrow>
     let hwmem = ioremapped e; tr = tr @ [IoremapUc (resource_start e) (resource_len e) hwmem] in
     if hwmem = 0 then Some (- EIO, tr @ my_release_device bar, b)
     else let tr = tr @ [PciSetDrvdata n] in do {
       b \<leftarrow> my_write_sample_data iowrite32 b (Some hwmem);
       let (ret, irqs) = set_interrupts e;
       Some (ret, tr @ irqs, b)
     })"

definition my_driver_remove :: "u64 option \<Rightarrow> int \<Rightarrow> kernel_call list" where
  "my_driver_remove drvdata bars =
    (case drvdata of
       None \<Rightarrow> []
     | Some hwmem \<Rightarrow> (if hwmem \<noteq> 0 then [Iounmap hwmem] else []) @ [PciFreeIrqVectors, Kfree]) @
    my_release_device bars"

lemmas my_driver_defs = my_driver_probe_def my_release_device_def set_interrupts_def
  my_write_sample_data_def Let_def ENOMEM_def EIO_def

subsection \<open>Properties of the example driver\<close>



end
