(* ===== verification/Modules.thy ===== *)
theory Modules
  imports EchoDriver SampleChar ExampleDriver
begin

section \<open>Registration of the modules and of the device type\<close>

text \<open>
  The tables and the load and unload functions of the kernel modules (\<open>fpga_char_main.c\<close>,
  \<open>pcie_fpga_echo.c\<close>, \<open>example_module.c\<close>, \<open>sample_char.c\<close>, \<open>hello.c\<close>) and the registration of the
  device type in QEMU (\<open>virtine_fpga.c\<close>).  A load function is given the result of the kernel's
  registration; its value is its result and the calls it makes.  An entry of an ID table is
  its vendor and device; \<open>PCI_DEVICE\<close> leaves the rest open.
\<close>

type_synonym pci_device_id = "u16 \<times> u16"

record ('probe, 'remove) pci_driver =
  pci_name :: string
  pci_id_table :: "pci_device_id list"
  pci_probe :: 'probe
  pci_remove :: 'remove

datatype module_call =
    PciRegisterDriver string "pci_device_id list"
  | PciUnregisterDriver string
  | UnregisterChrdev int string
  | Printk string

definition pci_register :: "('p, 'r) pci_driver \<Rightarrow> module_call" where
  "pci_register drv = PciRegisterDriver (pci_name drv) (pci_id_table drv)"

subsection \<open>The character driver\<close>

definition fpga_id_tbl :: "pci_device_id list" where
  "fpga_id_tbl = [(VENDOR_ID, DEVICE_ID), (0, 0)]"

definition fpga_driver where
  "fpga_driver = \<lparr>pci_name = ''fpga_char_main'', pci_id_table = fpga_id_tbl,
     pci_probe = fpga_probe, pci_remove = fpga_remove\<rparr>"

definition fpga_char_main_init :: "int \<Rightarrow> int \<times> module_call list" where
  "fpga_char_main_init registered =
     (registered, [Printk ''fpga_char_main: FPGA character driver starting'', pci_register fpga_driver])"

definition fpga_char_main_exit :: "module_call list" where
  "fpga_char_main_exit =
     [Printk ''fpga_char_main: FPGA character driver exiting'', PciUnregisterDriver (pci_name fpga_driver)]"

subsection \<open>The echo driver and the example driver\<close>

definition echo_id_tbl :: "pci_device_id list" where
  "echo_id_tbl = [(echo_VENDOR_ID, echo_DEVICE_ID), (0, 0)]"

definition echo_driver ::
  "('b readl \<Rightarrow> 'b iowrite32 \<Rightarrow> env \<Rightarrow> 'b \<Rightarrow> u32 \<Rightarrow> (int \<times> kernel_call list \<times> 'b) option,
    u64 option \<Rightarrow> int \<Rightarrow> kernel_call list) pci_driver" where
  "echo_driver = \<lparr>pci_name = ''pcie_fpga_echo'', pci_id_table = echo_id_tbl,
     pci_probe = echo_probe, pci_remove = echo_remove\<rparr>"

definition echo_init :: "int \<Rightarrow> int \<times> module_call list" where
  "echo_init registered =
     (registered, [Printk ''PCIe FPGA Echo starting'', pci_register (echo_driver :: (nat readl \<Rightarrow> _, _) pci_driver)])"

definition echo_exit :: "module_call list" where
  "echo_exit =
     [Printk ''PCIe FPGA Echo exiting'', PciUnregisterDriver (pci_name (echo_driver :: (nat readl \<Rightarrow> _, _) pci_driver))]"

definition my_driver_id_table :: "pci_device_id list" where
  "my_driver_id_table = [(my_VENDOR_ID, my_DEVICE_ID), (0, 0)]"

definition my_driver ::
  "('b iowrite32 \<Rightarrow> env \<Rightarrow> 'b \<Rightarrow> (int \<times> kernel_call list \<times> 'b) option,
    u64 option \<Rightarrow> int \<Rightarrow> kernel_call list) pci_driver" where
  "my_driver = \<lparr>pci_name = ''my_pci_driver'', pci_id_table = my_driver_id_table,
     pci_probe = my_driver_probe, pci_remove = my_driver_remove\<rparr>"

definition mypci_driver_init :: "int \<Rightarrow> int \<times> module_call list" where
  "mypci_driver_init registered = (registered, [pci_register (my_driver :: (nat iowrite32 \<Rightarrow> _, _) pci_driver)])"

definition mypci_driver_exit :: "module_call list" where
  "mypci_driver_exit = [PciUnregisterDriver (pci_name (my_driver :: (nat iowrite32 \<Rightarrow> _, _) pci_driver))]"

subsection \<open>The sample device and the hello-world module\<close>

definition sample_char_exit :: "sample_state \<Rightarrow> module_call list" where
  "sample_char_exit s =
     [UnregisterChrdev (major_num s) ''echo_chardev'',
      Printk ''Unregistered echo_chardev char device. Unloading module.'']"

definition hello_init :: "int \<times> module_call list" where
  "hello_init = (0, [Printk ''Hello world!''])"

definition hello_exit :: "module_call list" where
  "hello_exit = [Printk ''Goodbye world!'']"

subsection \<open>The device type\<close>

text \<open>The names of the parent type and of the interface are QEMU's.\<close>

record type_info =
  ti_name :: string
  ti_parent :: string
  ti_class_init :: pci_class
  ti_interfaces :: "string list"

definition virtine_fpga_register_types :: "string \<Rightarrow> string \<Rightarrow> type_info" where
  "virtine_fpga_register_types TYPE_PCI_DEVICE INTERFACE_CONVENTIONAL_PCI_DEVICE =
    (let interfaces = [INTERFACE_CONVENTIONAL_PCI_DEVICE] in
     \<lparr>ti_name = ''virtine-fpga'', ti_parent = TYPE_PCI_DEVICE,
      ti_class_init = virtine_fpga_class_init, ti_interfaces = interfaces\<rparr>)"

subsection \<open>Which driver gets the device\<close>

text \<open>
  What the PCI core is documented to do with a table: its entries are tried in order up to the
  zero entry that ends it.
\<close>

definition matches_table :: "(pci_device_id list \<Rightarrow> u16 \<Rightarrow> u16 \<Rightarrow> bool) \<Rightarrow> bool" where
  "matches_table pci_match \<longleftrightarrow> (\<forall>tbl v d.
     pci_match tbl v d \<longleftrightarrow> (v, d) \<in> set (takeWhile (\<lambda>(v, d). v \<noteq> 0) tbl))"

text \<open>The tables a load function hands to the PCI core.\<close>

fun registered_tables :: "module_call list \<Rightarrow> pci_device_id list list" where
  "registered_tables (PciRegisterDriver n tbl # cs) = tbl # registered_tables cs"
| "registered_tables (_ # cs) = registered_tables cs"
| "registered_tables [] = []"

definition claims ::
  "(pci_device_id list \<Rightarrow> u16 \<Rightarrow> u16 \<Rightarrow> bool) \<Rightarrow> (int \<Rightarrow> int \<times> module_call list) \<Rightarrow> type_info \<Rightarrow> bool" where
  "claims pci_match init t \<longleftrightarrow> list_ex (\<lambda>tbl.
     pci_match tbl (pci_class.vendor_id (ti_class_init t)) (pci_class.device_id (ti_class_init t)))
     (registered_tables (snd (init 0)))"

lemma load_functions:
  "registered_tables (snd (fpga_char_main_init r)) = [fpga_id_tbl]"
  "registered_tables (snd (echo_init r)) = [echo_id_tbl]"
  "registered_tables (snd (mypci_driver_init r)) = [my_driver_id_table]"
  by (simp_all add: fpga_char_main_init_def echo_init_def mypci_driver_init_def pci_register_def
      fpga_driver_def echo_driver_def my_driver_def)

text \<open>
  Two of the modules claim the virtine device: the IDs of the class QEMU registers for it match the
  table that loading the character driver registers, and as well the one of the echo driver,
  so which of the two gets the device depends on the order they are loaded in; the example driver's
  table does not match it.
\<close>

lemma drivers_claim_device:
  assumes "matches_table pci_match"
  shows "claims pci_match fpga_char_main_init (virtine_fpga_register_types parent iface)"
    "claims pci_match echo_init (virtine_fpga_register_types parent iface)"
    "\<not> claims pci_match mypci_driver_init (virtine_fpga_register_types parent iface)"
  using assms
  by (simp_all add: claims_def load_functions matches_table_def virtine_fpga_register_types_def
      virtine_fpga_class_init_def fpga_id_tbl_def echo_id_tbl_def my_driver_id_table_def
      VENDOR_ID_def DEVICE_ID_def echo_VENDOR_ID_def echo_DEVICE_ID_def my_VENDOR_ID_def my_DEVICE_ID_def)

end
