(* ===== verification/XilinxExample.thy ===== *)
theory XilinxExample
  imports PciDriver
begin

section \<open>The Xilinx example\<close>

text \<open>
  \<open>example/xilinx_example-kernel.c\<close>: one ioctl of another driver, kept for reference, that reads a byte of a
  PCIe region.  The file is a fragment: the number of regions, the result codes and the
  layout of the argument are declared elsewhere and are parameters here (\<open>EN_PCIE_REGIONS_4\<close>,
  \<open>RETURN_SUCCESS\<close>) or the fields the code uses.  \<open>copy_from_user\<close> and \<open>copy_to_user\<close> tell how many
  bytes they could not copy.
\<close>

record memory_access_args =
  pcie_region_index :: u8
  pcie_address_offset :: u64
  pcie_data :: u8

record pcie_region =
  region_length :: u64
  virt_address_start :: u64
  region_mask :: u64

definition x_EINVAL :: int where "x_EINVAL = 22"

definition zds_rf2pcie_read_uint64_uint8 ::
  "nat \<Rightarrow> int \<Rightarrow> ('b \<Rightarrow> u64 \<Rightarrow> (u8 \<times> 'b) option) \<Rightarrow> ('u \<Rightarrow> u64 \<Rightarrow> memory_access_args \<times> nat) \<Rightarrow>
   ('u \<Rightarrow> u64 \<Rightarrow> memory_access_args \<Rightarrow> 'u \<times> nat) \<Rightarrow> pcie_region list \<Rightarrow> 'b \<Rightarrow> 'u \<Rightarrow> u64 \<Rightarrow> (int \<times> 'b \<times> 'u) option" where
  "zds_rf2pcie_read_uint64_uint8 EN_PCIE_REGIONS_4 RETURN_SUCCESS readb copy_from_user copy_to_user
     regs b u args_p =
    (let (args, return_value) = copy_from_user u args_p in
     if return_value \<noteq> 0 then Some (- ENOMEM, b, u)
     else let i = unat (pcie_region_index args); off = pcie_address_offset args in
     if i \<ge> EN_PCIE_REGIONS_4 then Some (- x_EINVAL, b, u)
     else if i \<ge> length regs then None
     else if region_length (regs ! i) = 0 then Some (- x_EINVAL, b, u)
     else
       let pcie_address = virt_address_start (regs ! i);
           pcie_address = pcie_address + (region_mask (regs ! i) AND 0x3FFFFFFFFFFFFFFF AND off) in
       do {
         (v, b) \<leftarrow> readb b pcie_address;
         let (u, return_value) = copy_to_user u args_p (args\<lparr>pcie_data := v\<rparr>);
         if return_value \<noteq> 0 then Some (- ENOMEM, b, u) else Some (RETURN_SUCCESS, b, u)
       })"

lemma and_less:
  fixes a b n :: "'a :: len word"
  assumes "a < n"
  shows "a AND b < n"
  using assms word_and_le2 [of a b] by (metis and.commute order_le_less_trans word_and_le1)

text \<open>
  A request is answered in one of four ways, and the bus is only ever accessed inside the region
  asked for: with masks smaller than the lengths, the address read is the start of the region
  plus an offset below its length.
\<close>

lemma xilinx_read_stays_in_region:
  assumes "EN_PCIE_REGIONS_4 \<le> length regs"
    "\<forall>r \<in> set regs. region_length r \<noteq> 0 \<longrightarrow> region_mask r < region_length r"
    "copy_from_user u args_p = (args, 0)" "unat (pcie_region_index args) < EN_PCIE_REGIONS_4"
    "r = regs ! unat (pcie_region_index args)" "region_length r \<noteq> 0"
  shows "\<exists>off < region_length r.
    zds_rf2pcie_read_uint64_uint8 EN_PCIE_REGIONS_4 RETURN_SUCCESS readb copy_from_user copy_to_user
      regs b u args_p =
    Option.bind (readb b (virt_address_start r + off)) (\<lambda>(v, b).
      let (u, left) = copy_to_user u args_p (args\<lparr>pcie_data := v\<rparr>) in
      Some (if left \<noteq> 0 then - ENOMEM else RETURN_SUCCESS, b, u))"
proof -
  let ?off = "region_mask r AND 0x3FFFFFFFFFFFFFFF AND pcie_address_offset args"
  have "r \<in> set regs" using assms(1,4,5) by simp
  with assms(2,6) have "region_mask r < region_length r" by blast
  then have "?off < region_length r" by (simp add: and_less)
  then show ?thesis
    using assms by (intro exI [of _ ?off] conjI)
      (auto simp: zds_rf2pcie_read_uint64_uint8_def Let_def split: prod.split bind_split)
qed

lemma xilinx_read_refuses:
  assumes "copy_from_user u args_p = (args, 0)" "EN_PCIE_REGIONS_4 \<le> length regs"
    "unat (pcie_region_index args) \<ge> EN_PCIE_REGIONS_4 \<or>
     region_length (regs ! unat (pcie_region_index args)) = 0"
  shows "zds_rf2pcie_read_uint64_uint8 EN_PCIE_REGIONS_4 RETURN_SUCCESS readb copy_from_user copy_to_user
    regs b u args_p = Some (- x_EINVAL, b, u)"
  using assms by (auto simp: zds_rf2pcie_read_uint64_uint8_def Let_def)

end
