(* ===== verification/CLibrary.thy ===== *)
theory CLibrary
  imports Prelude
begin

section \<open>Numbers as text: the C library's \<open>strtoul\<close> and \<open>printf\<close>\<close>

text \<open>
  The user-space programs take numbers from their arguments with \<open>strtoul\<close> and show them with the
  \<open>printf\<close> conversions \<open>%lu\<close>, \<open>%ld\<close> and \<open>0x%lx\<close>.  Both are modelled for a 64-bit \<open>unsigned long\<close>.
\<close>

subsection \<open>Reading\<close>

definition digit_val :: "char \<Rightarrow> nat" where
  "digit_val c = (let n = of_char c :: nat in
     if 48 \<le> n \<and> n \<le> 57 then n - 48
     else if 97 \<le> n \<and> n \<le> 122 then n - 87
     else if 65 \<le> n \<and> n \<le> 90 then n - 55
     else 36)"

definition isspace :: "char \<Rightarrow> bool" where
  "isspace c = (let n = of_char c :: nat in n = 32 \<or> 9 \<le> n \<and> n \<le> 13)"

fun digits :: "nat \<Rightarrow> nat \<Rightarrow> string \<Rightarrow> nat" where
  "digits b acc [] = acc"
| "digits b acc (c # cs) = (if digit_val c < b then digits b (acc * b + digit_val c) cs else acc)"

fun sign :: "string \<Rightarrow> bool \<times> string" where
  "sign (CHR ''-'' # s) = (True, s)"
| "sign (CHR ''+'' # s) = (False, s)"
| "sign s = (False, s)"

text \<open>The prefix \<open>0x\<close> counts only when a hexadecimal digit follows it.\<close>

fun hex_prefix :: "string \<Rightarrow> bool" where
  "hex_prefix (c # x # d # s) = (c = CHR ''0'' \<and> (x = CHR ''x'' \<or> x = CHR ''X'') \<and> digit_val d < 16)"
| "hex_prefix _ = False"

definition number_base :: "nat \<Rightarrow> string \<Rightarrow> nat \<times> string" where
  "number_base b s =
     (if (b = 0 \<or> b = 16) \<and> hex_prefix s then (16, drop 2 s)
      else if b = 0 then (if s \<noteq> [] \<and> hd s = CHR ''0'' then 8 else 10, s)
      else (b, s))"

definition ULONG_MAX :: u64 where "ULONG_MAX = - 1"

definition strtoul :: "string \<Rightarrow> nat \<Rightarrow> u64" where
  "strtoul s b = (let (neg, s) = sign (dropWhile isspace s);
                      (b, s) = number_base b s;
                      n = digits b 0 s in
     if n > unat ULONG_MAX then ULONG_MAX
     else if neg then - of_nat n else of_nat n)"

subsection \<open>Printing\<close>

definition digit_char :: "nat \<Rightarrow> char" where
  "digit_char n = char_of (if n < 10 then 48 + n else 87 + n)"

fun show_base :: "nat \<Rightarrow> nat \<Rightarrow> string" where
  "show_base b n =
     (if b < 2 \<or> n < b then [digit_char n] else show_base b (n div b) @ [digit_char (n mod b)])"

declare show_base.simps [simp del]

definition show_lu :: "u64 \<Rightarrow> string" where
  "show_lu v = show_base 10 (unat v)"

definition show_ld :: "u64 \<Rightarrow> string" where
  "show_ld v = (if sint v < 0 then CHR ''-'' # show_base 10 (nat (- sint v)) else show_base 10 (nat (sint v)))"

definition show_0x :: "u64 \<Rightarrow> string" where
  "show_0x v = ''0x'' @ show_base 16 (unat v)"

subsection \<open>What is printed can be read back\<close>

lemma digit_val_char [simp]: "n < 16 \<Longrightarrow> digit_val (digit_char n) = n"
  by (simp add: digit_val_def digit_char_def Let_def)

lemma digit_char_eq: "n < 16 \<Longrightarrow> digit_char n = c \<longleftrightarrow> of_char c = (if n < 10 then 48 + n else 87 + n)"
proof
  assume "n < 16" "digit_char n = c"
  then show "of_char c = (if n < 10 then 48 + n else 87 + n)" by (auto simp: digit_char_def)
next
  assume "of_char c = (if n < 10 then 48 + n else 87 + n)"
  then show "digit_char n = c" by (metis char_of_char digit_char_def)
qed

lemma digit_char_plain [simp]:
  assumes "n < 16"
  shows "\<not> isspace (digit_char n)" "digit_char n \<noteq> CHR ''-''" "digit_char n \<noteq> CHR ''+''"
    "digit_char n \<noteq> CHR ''x''" "digit_char n \<noteq> CHR ''X''" "digit_char n = CHR ''0'' \<longleftrightarrow> n = 0"
  using assms by (simp_all add: isspace_def digit_char_eq) (simp add: digit_char_def)

lemma digits_snoc:
  assumes "\<forall>x\<in>set xs. digit_val x < b" "digit_val c < b"
  shows "digits b acc (xs @ [c]) = digits b acc xs * b + digit_val c"
  using assms by (induction xs arbitrary: acc) auto

lemma show_base_digits:
  assumes "2 \<le> b" "b \<le> 16"
  shows "(\<forall>c\<in>set (show_base b n). digit_val c < b) \<and> digits b 0 (show_base b n) = n"
  using assms
proof (induction b n rule: show_base.induct)
  case (1 b n)
  then show ?case
    by (subst (1 2) show_base.simps) (auto simp: digits_snoc less_le_trans [OF mod_less_divisor])
qed

lemma show_base_first:
  assumes "2 \<le> b" "b \<le> 16"
  shows "\<exists>d cs. show_base b n = digit_char d # cs \<and> d < b \<and> (d = 0 \<longrightarrow> n = 0 \<and> cs = [])"
  using assms
proof (induction b n rule: show_base.induct)
  case (1 b n)
  then show ?case by (subst (1) show_base.simps) (force simp: div_eq_0_iff)
qed

lemma sign_digit [simp]: "n < 16 \<Longrightarrow> sign (digit_char n # cs) = (False, digit_char n # cs)"
  by (rule sign.elims [of "digit_char n # cs"]) (auto dest: digit_char_plain)

lemma unat_ULONG_MAX: "unat ULONG_MAX = 2 ^ 64 - 1"
  by (simp add: ULONG_MAX_def unsigned_minus_1_eq_mask mask_eq_exp_minus_1)

lemmas strtoul_simps = strtoul_def unat_ULONG_MAX number_base_def digit_val_def isspace_def

lemma strtoul_decimal:
  assumes "n < 2 ^ 64"
  shows "strtoul (show_base 10 n) 0 = of_nat n"
    "strtoul (CHR ''-'' # show_base 10 n) 0 = - of_nat n"
proof -
  obtain d cs where s: "show_base 10 n = digit_char d # cs" "d < 10" "d = 0 \<longrightarrow> n = 0 \<and> cs = []"
    using show_base_first [of 10 n] by auto
  have dig: "digits 10 0 (digit_char d # cs) = n" and plain: "\<forall>c\<in>set (digit_char d # cs). digit_val c < 10"
    using show_base_digits [of 10 n] s(1) by auto
  have base: "number_base 0 (digit_char d # cs) = (if d = 0 then 8 else 10, digit_char d # cs)"
    using s(2,3) by (cases cs rule: list.exhaust) (auto simp: number_base_def elim: hex_prefix.elims)
  have val: "digits (if d = 0 then 8 else 10) 0 (digit_char d # cs) = n"
    using s(3) dig by auto
  have "\<not> isspace CHR ''-''" by (simp add: isspace_def)
  moreover have "sign (digit_char d # cs) = (False, digit_char d # cs)" "\<not> isspace (digit_char d)"
    using s(2) by simp_all
  ultimately show "strtoul (show_base 10 n) 0 = of_nat n"
    "strtoul (CHR ''-'' # show_base 10 n) 0 = - of_nat n"
    using base val unat_ULONG_MAX assms s(1)
    by (simp_all add: strtoul_def)
qed

lemma strtoul_hex:
  assumes "n < 2 ^ 64" "b = 0 \<or> b = 16"
  shows "strtoul (''0x'' @ show_base 16 n) b = of_nat n"
proof -
  obtain d cs where s: "show_base 16 n = digit_char d # cs" "d < 16"
    using show_base_first [of 16 n] by auto
  have "digits 16 0 (digit_char d # cs) = n" using show_base_digits [of 16 n] s(1) by auto
  moreover have "number_base b (''0x'' @ digit_char d # cs) = (16, digit_char d # cs)"
    using s(2) assms(2) by (auto simp: number_base_def)
  moreover have "\<not> isspace CHR ''0''" by (simp add: isspace_def)
  ultimately show ?thesis
    using unat_ULONG_MAX assms(1) s(1) by (simp add: strtoul_def)
qed

lemma printed_reads_back:
  "strtoul (show_lu v) 0 = v" "strtoul (show_0x v) 0 = v" "strtoul (show_ld v) 0 = v"
proof -
  have v: "unat v < 2 ^ 64" using unsigned_less [of v] by simp
  show "strtoul (show_lu v) 0 = v" "strtoul (show_0x v) 0 = v"
    using strtoul_decimal(1) [OF v] strtoul_hex [OF v] by (simp_all add: show_lu_def show_0x_def)
  have "nat \<bar>sint v\<bar> < 2 ^ 64" using sint_lt [of v] sint_ge [of v] by simp
  from strtoul_decimal [OF this] show "strtoul (show_ld v) 0 = v"
    by (auto simp: show_ld_def)
qed

end
