(* ===== verification/TestPrograms.thy ===== *)
theory TestPrograms
  imports CLibrary CharDev
begin

section \<open>The user-space test programs\<close>

text \<open>
  The three programs of \<open>fpga-char-test/\<close>, each as a function from its arguments to the value \<open>main\<close>
  returns.  The system calls are an argument, a record of functions on the state \<open>'k\<close> of the kernel
  that return what the kernel returns, a negative number for an error; \<open>libc\<close> turns that into
  \<open>-1\<close> and \<open>errno\<close>.  What a program prints is a list of messages, one constructor for each
  \<open>printf\<close> with the texts its conversions produce; printing is taken to leave \<open>errno\<close> alone.  A
  buffer of eight bytes is a 64-bit word.  \<open>None\<close> is undefined behaviour, here the use of a
  null pointer.
\<close>

datatype action = READ | WRITE

datatype ioctl_to_test = MAX_VIRTINES | CHANGE_BATCH_FACTOR | RING_DOORBELL | SET_SNAPSHOT

datatype message =
    IncorrectArguments | CouldNotOpen int | PrintingErrno int
  | InvalidDirection | WritingToFpga string | TooManyArguments | WritingToDevice string
  | ValueNotSpecified | Failed action | Succeeded action string | ValueIs string string string
  | UnsupportedIoctl string | TotalVirtines string | BatchFactorArguments | BatchFactorChanged
  | DoorbellRung | SnapshotArguments
  | WillWriteVirtine string string | WriteFailed | WriteVirtineSucceeded string

text \<open>The third argument of \<open>ioctl\<close>: nothing, a number, or a pointer to a variable or a \<open>struct virtine_snapshot\<close>.\<close>

datatype ioctl_arg = NoArg | ValueArg u64 | PointerArg u64 | SnapshotArg u64 u64

record 'k syscalls =
  sys_open :: "string \<Rightarrow> 'k \<Rightarrow> (int \<times> 'k) option"
  sys_close :: "int \<Rightarrow> 'k \<Rightarrow> (int \<times> 'k) option"
  sys_pread :: "int \<Rightarrow> u64 \<Rightarrow> nat \<Rightarrow> u64 \<Rightarrow> 'k \<Rightarrow> (int \<times> u64 \<times> 'k) option"  \<comment> \<open>fd, buffer, count, offset\<close>
  sys_pwrite :: "int \<Rightarrow> u64 \<Rightarrow> nat \<Rightarrow> u64 \<Rightarrow> 'k \<Rightarrow> (int \<times> 'k) option"
  sys_ioctl :: "int \<Rightarrow> u32 \<Rightarrow> ioctl_arg \<Rightarrow> 'k \<Rightarrow> (int \<times> ioctl_arg \<times> 'k) option"

record 'k process =
  errno :: int
  stdout :: "message list"
  kern :: 'k

definition EXIT_SUCCESS :: int where "EXIT_SUCCESS = 0"
definition EXIT_FAILURE :: int where "EXIT_FAILURE = 1"

definition say :: "message \<Rightarrow> 'k process \<Rightarrow> 'k process" where
  "say m p = p\<lparr>stdout := stdout p @ [m]\<rparr>"

definition libc :: "int \<Rightarrow> 'k process \<Rightarrow> int \<times> 'k process" where
  "libc r p = (if - 4095 \<le> r \<and> r < 0 then (- 1, p\<lparr>errno := - r\<rparr>) else (r, p))"

text \<open>\<open>argv[i]\<close>; \<open>argv[argc]\<close> is the null pointer.\<close>

definition arg :: "string list \<Rightarrow> nat \<Rightarrow> string option" where
  "arg argv i = (if i < length argv then Some (argv ! i) else None)"

definition device_path :: string where "device_path = ''/dev/virtine_fpga''"

definition open_device :: "'k syscalls \<Rightarrow> 'k process \<Rightarrow> (int \<times> 'k process) option" where
  "open_device sys p = do {
     (virtine_fd, k) \<leftarrow> sys_open sys device_path (kern p);
     Some (libc virtine_fd (p\<lparr>kern := k\<rparr>))
   }"

definition fail_exit :: "'k syscalls \<Rightarrow> int \<Rightarrow> 'k process \<Rightarrow> (int \<times> 'k process) option" where
  "fail_exit sys virtine_fd p = do {
     (r, k) \<leftarrow> sys_close sys virtine_fd (kern p);
     let (r, p) = libc r (p\<lparr>kern := k\<rparr>);
     Some (EXIT_FAILURE, say (PrintingErrno (errno p)) p)
   }"

subsection \<open>\<open>test-addrs\<close>\<close>

text \<open>The part of \<open>main\<close> from the parsing of the offset on; \<open>val\<close> may still be uninitialised.\<close>

definition test_addrs_transfer ::
  "'k syscalls \<Rightarrow> string list \<Rightarrow> action \<Rightarrow> u64 \<Rightarrow> 'k process \<Rightarrow> (int \<times> 'k process) option" where
  "test_addrs_transfer sys argv dir val p = do {
     a \<leftarrow> arg argv 2;
     let offset = strtoul a 0;
     (virtine_fd, p) \<leftarrow> open_device sys p;
     if virtine_fd < 0 then Some (errno p, say (CouldNotOpen (errno p)) p)
     else if dir = READ \<and> length argv > 3 then fail_exit sys virtine_fd (say TooManyArguments p)
     else if dir = WRITE \<and> length argv \<noteq> 4 then fail_exit sys virtine_fd (say ValueNotSpecified p)
     else do {
       (bytes_handled, val, p) \<leftarrow>
         (case dir of
            READ \<Rightarrow> do {
              (r, val, k) \<leftarrow> sys_pread sys virtine_fd val 8 offset (kern p);
              let (r, p) = libc r (p\<lparr>kern := k\<rparr>);
              Some (r, val, p)
            }
          | WRITE \<Rightarrow> do {
              let p = say (WritingToDevice (show_ld val)) p;
              (r, k) \<leftarrow> sys_pwrite sys virtine_fd val 8 offset (kern p);
              let (r, p) = libc r (p\<lparr>kern := k\<rparr>);
              Some (r, val, p)
            });
       if bytes_handled < 0 then fail_exit sys virtine_fd (say (Failed dir) p)
       else Some (EXIT_SUCCESS,
                  say (ValueIs (show_ld val) (show_lu val) (show_0x val))
                      (say (Succeeded dir (show_0x val)) p))
     }
   }"

definition test_addrs_main ::
  "'k syscalls \<Rightarrow> u64 \<Rightarrow> string list \<Rightarrow> 'k process \<Rightarrow> (int \<times> 'k process) option" where
  "test_addrs_main sys junk argv p =
    (if \<not> (length argv = 3 \<or> length argv = 4) then Some (EXIT_FAILURE, say IncorrectArguments p)
     else do {
       dir \<leftarrow> arg argv 1;
       if dir = ''read'' then test_addrs_transfer sys argv READ junk p
       else if dir = ''write'' then do {
         a \<leftarrow> arg argv 3;
         let val = strtoul a 0;
         test_addrs_transfer sys argv WRITE val (say (WritingToFpga (show_0x val)) p)
       }
       else Some (EXIT_FAILURE, say InvalidDirection p)
     })"

subsection \<open>\<open>test-ioctls\<close>\<close>

definition ioctl_named :: "string \<Rightarrow> ioctl_to_test option" where
  "ioctl_named s =
     (if s = ''max_virtines'' then Some MAX_VIRTINES
      else if s = ''change_batch_factor'' then Some CHANGE_BATCH_FACTOR
      else if s = ''ring_doorbell'' then Some RING_DOORBELL
      else if s = ''set_snapshot'' then Some SET_SNAPSHOT
      else None)"

definition do_ioctl ::
  "'k syscalls \<Rightarrow> int \<Rightarrow> u32 \<Rightarrow> ioctl_arg \<Rightarrow> 'k process \<Rightarrow> (int \<times> ioctl_arg \<times> 'k process) option" where
  "do_ioctl sys fd cmd a p = do {
     (r, a, k) \<leftarrow> sys_ioctl sys fd cmd a (kern p);
     let (r, p) = libc r (p\<lparr>kern := k\<rparr>);
     Some (r, a, p)
   }"

text \<open>The \<open>switch\<close>: \<open>ioctl_ret_val\<close>, or \<open>None\<close> in the first component for \<open>goto fail_exit\<close>.\<close>

definition run_ioctl ::
  "'k syscalls \<Rightarrow> string list \<Rightarrow> int \<Rightarrow> ioctl_to_test \<Rightarrow> 'k process \<Rightarrow> (int option \<times> 'k process) option" where
  "run_ioctl sys argv virtine_fd test p =
    (case test of
       MAX_VIRTINES \<Rightarrow> do {
         (r, a, p) \<leftarrow> do_ioctl sys virtine_fd user_FPGA_CHAR_GET_MAX_NUM_VIRTINES (PointerArg (- 1)) p;
         let num_virtines = (case a of PointerArg n \<Rightarrow> n | _ \<Rightarrow> - 1);
         Some (Some r, say (TotalVirtines (show_lu num_virtines)) p)
       }
     | CHANGE_BATCH_FACTOR \<Rightarrow>
         if length argv \<noteq> 3 then Some (None, say BatchFactorArguments p)
         else do {
           a \<leftarrow> arg argv 2;
           (r, _, p) \<leftarrow> do_ioctl sys virtine_fd user_FPGA_CHAR_MODIFY_BATCH_FACTOR (ValueArg (strtoul a 0)) p;
           Some (Some r, if r \<ge> 0 then say BatchFactorChanged p else p)
         }
     | RING_DOORBELL \<Rightarrow> do {
         (r, _, p) \<leftarrow> do_ioctl sys virtine_fd user_FPGA_CHAR_RING_DOORBELL NoArg p;
         Some (Some r, if r \<ge> 0 then say DoorbellRung p else p)
       }
     | SET_SNAPSHOT \<Rightarrow>
         if length argv \<noteq> 4 then Some (None, say SnapshotArguments p)
         else do {
           a2 \<leftarrow> arg argv 2;
           a3 \<leftarrow> arg argv 3;
           (r, _, p) \<leftarrow> do_ioctl sys virtine_fd user_FPGA_CHAR_SET_SNAPSHOT
                            (SnapshotArg (strtoul a3 16) (strtoul a2 0)) p;
           Some (Some r, p)
         })"

definition test_ioctls_main ::
  "'k syscalls \<Rightarrow> string list \<Rightarrow> 'k process \<Rightarrow> (int \<times> 'k process) option" where
  "test_ioctls_main sys argv p =
    (if length argv < 2 then Some (EXIT_FAILURE, say IncorrectArguments p)
     else do {
       a1 \<leftarrow> arg argv 1;
       case ioctl_named a1 of
         None \<Rightarrow> Some (errno p, say (UnsupportedIoctl a1) p)
       | Some test \<Rightarrow> do {
           (virtine_fd, p) \<leftarrow> open_device sys p;
           if virtine_fd < 0 then Some (errno p, say (CouldNotOpen (errno p)) p)
           else do {
             (ret, p) \<leftarrow> run_ioctl sys argv virtine_fd test p;
             case ret of
               None \<Rightarrow> fail_exit sys virtine_fd p
             | Some ioctl_ret_val \<Rightarrow>
                 if ioctl_ret_val < 0 then fail_exit sys virtine_fd p else Some (EXIT_SUCCESS, p)
           }
         }
     })"

subsection \<open>\<open>test-give-virtine\<close>\<close>

text \<open>\<open>malloced\<close> is the pointer \<open>malloc\<close> returns, 0 when it fails.\<close>

definition test_give_virtine_main ::
  "'k syscalls \<Rightarrow> u64 \<Rightarrow> string list \<Rightarrow> 'k process \<Rightarrow> (int \<times> 'k process) option" where
  "test_give_virtine_main sys malloced argv p =
    (if length argv > 1 then Some (EXIT_FAILURE, say IncorrectArguments p)
     else if malloced = 0 then None
     else do {
       let p = say (WillWriteVirtine (show_0x malloced) (show_lu 8)) p;
       (virtine_fd, p) \<leftarrow> open_device sys p;
       if virtine_fd < 0 then Some (errno p, say (CouldNotOpen (errno p)) p)
       else do {
         let offset = 0x8;
         (bytes_handled, k) \<leftarrow> sys_pwrite sys virtine_fd malloced 8 offset (kern p);
         let (bytes_handled, p) = libc bytes_handled (p\<lparr>kern := k\<rparr>);
         if bytes_handled < 0 then fail_exit sys virtine_fd (say WriteFailed p)
         else Some (EXIT_SUCCESS, say (WriteVirtineSucceeded (show_0x malloced)) p)
       }
     })"

subsection \<open>What does not depend on the device\<close>

text \<open>A process as the shell starts it.\<close>

definition fresh :: "'k \<Rightarrow> 'k process" where
  "fresh k = \<lparr>errno = 0, stdout = [], kern = k\<rparr>"

lemma fresh_simps [simp]: "errno (fresh k) = 0" "stdout (fresh k) = []" "kern (fresh k) = k"
  by (simp_all add: fresh_def)

lemma libc_simps [simp]: "0 \<le> r \<Longrightarrow> libc r p = (r, p)"
  "- 4095 \<le> r \<Longrightarrow> r < 0 \<Longrightarrow> libc r p = (- 1, p\<lparr>errno := - r\<rparr>)"
  by (simp_all add: libc_def)

lemma say_simps [simp]: "kern (say m p) = kern p" "errno (say m p) = errno p"
  "stdout (say m p) = stdout p @ [m]" "(say m p)\<lparr>kern := k\<rparr> = say m (p\<lparr>kern := k\<rparr>)"
  by (simp_all add: say_def)

lemma arg_simps [simp]: "i < length argv \<Longrightarrow> arg argv i = Some (argv ! i)"
  "length argv \<le> i \<Longrightarrow> arg argv i = None"
  by (simp_all add: arg_def)

lemma open_device_fails:
  assumes "sys_open sys device_path (kern p) = Some (- e, k)" "0 < e" "e \<le> 4095"
  shows "open_device sys p = Some (- 1, p\<lparr>kern := k, errno := e\<rparr>)"
  using assms by (simp add: open_device_def libc_def)

text \<open>
  C38. How the test programs fail, whatever system they run on: when the device cannot be opened each
  returns the error number and makes no further call; asked for an ioctl it does not know,
  \<open>test-ioctls\<close> returns \<open>errno\<close>, which nothing has set, so a fresh process reports success; and
  \<open>test-addrs write\<close> without a value passes a null pointer to \<open>strtoul\<close>.
\<close>

theorem test_programs_fail:
  assumes "sys_open sys device_path (kern p) = Some (- e, k)" "0 < e" "e \<le> 4095"
    "ioctl_named test \<noteq> None" "ioctl_named unknown = None" "malloced \<noteq> 0"
  shows "(\<exists>p'. test_ioctls_main sys (name # test # args) p = Some (e, p') \<and> kern p' = k) \<and>
    (\<exists>p'. test_addrs_main sys junk [name, ''read'', off] p = Some (e, p') \<and> kern p' = k) \<and>
    (\<exists>p'. test_give_virtine_main sys malloced [name] p = Some (e, p') \<and> kern p' = k) \<and>
    test_ioctls_main sys (name # unknown # args) (fresh k0) = Some (EXIT_SUCCESS, say (UnsupportedIoctl unknown) (fresh k0)) \<and>
    test_addrs_main sys junk [name, ''write'', off] p = None"
proof -
  let ?q = "say (WillWriteVirtine (show_0x malloced) (show_lu 8)) p"
  have o: "open_device sys p = Some (- 1, p\<lparr>kern := k, errno := e\<rparr>)" by (rule open_device_fails [OF assms(1-3)])
  have q: "open_device sys ?q = Some (- 1, ?q\<lparr>kern := k, errno := e\<rparr>)"
    using assms(1-3) by (intro open_device_fails) simp_all
  obtain t where t: "ioctl_named test = Some t" using assms(4) by blast
  show ?thesis
  proof (intro conjI)
    show "\<exists>p'. test_ioctls_main sys (name # test # args) p = Some (e, p') \<and> kern p' = k"
      by (simp add: test_ioctls_main_def t o)
    show "\<exists>p'. test_addrs_main sys junk [name, ''read'', off] p = Some (e, p') \<and> kern p' = k"
      by (simp add: test_addrs_main_def test_addrs_transfer_def o)
    show "\<exists>p'. test_give_virtine_main sys malloced [name] p = Some (e, p') \<and> kern p' = k"
      using assms(6) by (simp add: test_give_virtine_main_def q)
    show "test_ioctls_main sys (name # unknown # args) (fresh k0) =
        Some (EXIT_SUCCESS, say (UnsupportedIoctl unknown) (fresh k0))"
      by (simp add: test_ioctls_main_def assms(5) EXIT_SUCCESS_def)
    show "test_addrs_main sys junk [name, ''write'', off] p = None"
      by (simp add: test_addrs_main_def)
  qed
qed

text \<open>A system without the device file: every open fails with \<open>ENOENT\<close>.\<close>

definition no_device :: "unit syscalls" where
  "no_device = \<lparr>sys_open = (\<lambda>path k. Some (- 2, k)), sys_close = (\<lambda>fd k. Some (- 9, k)),
     sys_pread = (\<lambda>fd v n off k. Some (- 9, v, k)), sys_pwrite = (\<lambda>fd v n off k. Some (- 9, k)),
     sys_ioctl = (\<lambda>fd cmd a k. Some (- 9, a, k))\<rparr>"

theorem test_programs_fail_witness:
  "\<exists>p'. test_ioctls_main no_device [''test-ioctls'', ''ring_doorbell''] (fresh ()) = Some (2, p') \<and>
    test_ioctls_main no_device [''test-ioctls'', ''ring_doorbel''] (fresh ()) =
      Some (EXIT_SUCCESS, say (UnsupportedIoctl ''ring_doorbel'') (fresh ())) \<and>
    test_addrs_main no_device 0 [''test-addrs'', ''write'', ''0x8''] (fresh ()) = None"
proof -
  have "sys_open no_device device_path (kern (fresh ())) = Some (- 2, ())" by (simp add: no_device_def)
  from test_programs_fail [OF this, where test = "''ring_doorbell''" and unknown = "''ring_doorbel''"
      and malloced = 1 and name = "''test-ioctls''" and args = "[]" and junk = 0 and off = "''0x8''"
      and ?k0.0 = "()"]
    test_programs_fail [OF this, where test = "''ring_doorbell''" and unknown = "''ring_doorbel''"
      and malloced = 1 and name = "''test-addrs''" and args = "[]" and junk = 0 and off = "''0x8''"
      and ?k0.0 = "()"]
  show ?thesis by (auto simp: ioctl_named_def)
qed

end
