(* ===== verification/DeviceFile.thy ===== *)
theory DeviceFile
  imports TestPrograms
begin

section \<open>The device file under the test programs\<close>

text \<open>
  The contract \<open>device_file\<close> between the test programs and what is behind \<open>/dev/virtine_fpga\<close>, the
  behaviour of the programs proved from it, and its instance: the system calls dispatched to
  the file operations of \<open>CharDev\<close> on an attached device.  The dispatch, the kernel's virtual file
  system, is not part of the program: \<open>vfs_syscalls\<close> writes down its documented behaviour, and
  \<open>dispatches\<close> is the hypothesis that the system calls used agree with it.
\<close>

subsection \<open>The contract\<close>

record card_view =
  waiting :: "u64 list"
  completed :: "u64 list"
  view_addr :: u64
  view_size :: u64
  view_batch :: u32
  view_bell :: bool

definition enqueue :: "u64 \<Rightarrow> card_view \<Rightarrow> card_view" where
  "enqueue v c = (if length (waiting c) < NUM_POSSIBLE_VIRTINES then c\<lparr>waiting := waiting c @ [v]\<rparr> else c)"

locale device_file =
  fixes sys :: "'k syscalls" and ready :: "'k \<Rightarrow> bool" and opened :: "'k \<Rightarrow> int \<Rightarrow> bool"
    and view :: "'k \<Rightarrow> card_view"
  assumes open_ok: "ready k \<Longrightarrow> \<exists>fd k'. sys_open sys device_path k = Some (fd, k') \<and> 0 \<le> fd \<and>
      opened k' fd \<and> view k' = view k"
    and opened_ready: "opened k fd \<Longrightarrow> ready k"
    and close_ok: "opened k fd \<Longrightarrow> \<exists>k'. sys_close sys fd k = Some (0, k') \<and> ready k' \<and> view k' = view k"
    and pwrite_queue: "opened k fd \<Longrightarrow> v \<noteq> 0 \<Longrightarrow> \<exists>k'. sys_pwrite sys fd v 8 drv_RQ_TAIL_OFFSET_REG k = Some (8, k') \<and>
      opened k' fd \<and> view k' = enqueue v (view k)"
    and pwrite_addr: "opened k fd \<Longrightarrow> \<exists>k'. sys_pwrite sys fd v 8 drv_SNAPSHOT_ADDR_REG k = Some (8, k') \<and>
      opened k' fd \<and> view k' = (view k)\<lparr>view_addr := v\<rparr>"
    and pread_addr: "opened k fd \<Longrightarrow>
      sys_pread sys fd old 8 drv_SNAPSHOT_ADDR_REG k = Some (8, view_addr (view k), k)"
    and pwrite_unaligned: "opened k fd \<Longrightarrow> off mod 4 \<noteq> 0 \<Longrightarrow> 0 \<le> sint off \<Longrightarrow>
      sys_pwrite sys fd v 8 off k = Some (0, k)"
    and pread_unaligned: "opened k fd \<Longrightarrow> off mod 4 \<noteq> 0 \<Longrightarrow> 0 \<le> sint off \<Longrightarrow>
      sys_pread sys fd v 8 off k = Some (- EIO, v, k)"
    and ioctl_batch: "opened k fd \<Longrightarrow> \<exists>k'. sys_ioctl sys fd user_FPGA_CHAR_MODIFY_BATCH_FACTOR (ValueArg v) k =
      Some (0, ValueArg v, k') \<and> opened k' fd \<and> view k' = (view k)\<lparr>view_batch := lo32 v\<rparr>"
    and ioctl_max: "opened k fd \<Longrightarrow> sys_ioctl sys fd user_FPGA_CHAR_GET_MAX_NUM_VIRTINES (PointerArg v) k =
      Some (0, PointerArg (of_nat NUM_POSSIBLE_VIRTINES), k)"
    and ioctl_bell: "opened k fd \<Longrightarrow> \<exists>k'. sys_ioctl sys fd user_FPGA_CHAR_RING_DOORBELL NoArg k =
      Some (0, NoArg, k') \<and> opened k' fd \<and> view k' = (view k)\<lparr>view_bell := True\<rparr>"
    and ioctl_snapshot: "opened k fd \<Longrightarrow> \<exists>k'. sys_ioctl sys fd user_FPGA_CHAR_SET_SNAPSHOT (SnapshotArg a sz) k =
      Some (8, SnapshotArg a sz, k') \<and> opened k' fd \<and>
      view k' = (view k)\<lparr>view_addr := a, view_size := sz AND 0xFFFFFFFF\<rparr>"

subsection \<open>The programs on a device file\<close>

context device_file
begin

lemma opens:
  assumes "ready (kern p)"
  shows "\<exists>fd k. open_device sys p = Some (fd, p\<lparr>kern := k\<rparr>) \<and> 0 \<le> fd \<and> opened k fd \<and> view k = view (kern p)"
proof -
  from open_ok [OF assms] obtain fd k where "sys_open sys device_path (kern p) = Some (fd, k)" "0 \<le> fd"
    "opened k fd" "view k = view (kern p)" by blast
  then show ?thesis by (intro exI [of _ fd] exI [of _ k]) (simp add: open_device_def)
qed

lemma fails:
  assumes "opened (kern p) fd"
  shows "\<exists>p'. fail_exit sys fd p = Some (EXIT_FAILURE, p') \<and> ready (kern p') \<and> view (kern p') = view (kern p) \<and>
    errno p' = errno p \<and> stdout p' = stdout p @ [PrintingErrno (errno p)]"
  using close_ok [OF assms] by (auto simp: fail_exit_def)

lemma give_virtine:
  assumes "ready (kern p)" "v \<noteq> 0"
  shows "\<exists>p'. test_give_virtine_main sys v [name] p = Some (EXIT_SUCCESS, p') \<and> ready (kern p') \<and>
    view (kern p') = enqueue v (view (kern p)) \<and>
    stdout p' = stdout p @ [WillWriteVirtine (show_0x v) (show_lu 8), WriteVirtineSucceeded (show_0x v)]"
proof -
  let ?p = "say (WillWriteVirtine (show_0x v) (show_lu 8)) p"
  obtain fd k where o: "open_device sys ?p = Some (fd, ?p\<lparr>kern := k\<rparr>)" "0 \<le> fd" "opened k fd"
    "view k = view (kern ?p)" using opens [of ?p] assms(1) by auto
  from pwrite_queue [OF o(3) assms(2)] obtain k' where
    "sys_pwrite sys fd v 8 drv_RQ_TAIL_OFFSET_REG k = Some (8, k')" "opened k' fd" "view k' = enqueue v (view k)"
    by blast
  moreover have "drv_RQ_TAIL_OFFSET_REG = 8" by (simp add: reg_simps)
  ultimately show ?thesis using o assms(2) opened_ready by (simp add: test_give_virtine_main_def)
qed

lemma transfer_write:
  assumes "ready (kern p)" "strtoul off 0 = drv_SNAPSHOT_ADDR_REG"
  shows "\<exists>p'. test_addrs_transfer sys [name, dir, off, s] WRITE v p = Some (EXIT_SUCCESS, p') \<and> ready (kern p') \<and>
    view (kern p') = (view (kern p))\<lparr>view_addr := v\<rparr>"
proof -
  obtain fd k where o: "open_device sys p = Some (fd, p\<lparr>kern := k\<rparr>)" "0 \<le> fd" "opened k fd"
    "view k = view (kern p)" using opens [OF assms(1)] by blast
  from pwrite_addr [OF o(3)] obtain k' where
    "sys_pwrite sys fd v 8 drv_SNAPSHOT_ADDR_REG k = Some (8, k')" "opened k' fd"
    "view k' = (view k)\<lparr>view_addr := v\<rparr>" by blast
  with o assms(2) opened_ready show ?thesis by (simp add: test_addrs_transfer_def)
qed

lemma write_addr:
  assumes "ready (kern p)" "strtoul off 0 = drv_SNAPSHOT_ADDR_REG"
  shows "\<exists>p'. test_addrs_main sys junk [name, ''write'', off, s] p = Some (EXIT_SUCCESS, p') \<and> ready (kern p') \<and>
    view (kern p') = (view (kern p))\<lparr>view_addr := strtoul s 0\<rparr>"
  using transfer_write [OF _ assms(2), of "say (WritingToFpga (show_0x (strtoul s 0))) p"] assms(1)
  by (simp add: test_addrs_main_def Let_def)

lemma read_addr:
  assumes "ready (kern p)" "strtoul off 0 = drv_SNAPSHOT_ADDR_REG" and v: "v = view_addr (view (kern p))"
  shows "\<exists>p'. test_addrs_main sys junk [name, ''read'', off] p = Some (EXIT_SUCCESS, p') \<and> ready (kern p') \<and>
    view (kern p') = view (kern p) \<and>
    stdout p' = stdout p @ [Succeeded READ (show_0x v), ValueIs (show_ld v) (show_lu v) (show_0x v)]"
proof -
  obtain fd k where o: "open_device sys p = Some (fd, p\<lparr>kern := k\<rparr>)" "0 \<le> fd" "opened k fd"
    "view k = view (kern p)" using opens [OF assms(1)] by blast
  from pread_addr [OF o(3)] o assms(2) v opened_ready [OF o(3)] show ?thesis
    by (simp add: test_addrs_main_def test_addrs_transfer_def)
qed

lemma unaligned_access:
  assumes "ready (kern p)" "strtoul off 0 mod 4 \<noteq> 0" "0 \<le> sint (strtoul off 0)"
  shows "\<exists>p'. test_addrs_main sys junk [name, ''write'', off, s] p = Some (EXIT_SUCCESS, p') \<and>
      view (kern p') = view (kern p) \<and> Succeeded WRITE (show_0x (strtoul s 0)) \<in> set (stdout p')"
    "\<exists>p'. test_addrs_main sys junk [name, ''read'', off] p = Some (EXIT_FAILURE, p') \<and>
      view (kern p') = view (kern p) \<and> stdout p' = stdout p @ [Failed READ, PrintingErrno EIO]"
proof -
  let ?p = "say (WritingToFpga (show_0x (strtoul s 0))) p"
  obtain fd k where o: "open_device sys ?p = Some (fd, ?p\<lparr>kern := k\<rparr>)" "0 \<le> fd" "opened k fd"
    "view k = view (kern p)" using opens [of ?p] assms(1) by auto
  from pwrite_unaligned [OF o(3) assms(2,3)] o
  show "\<exists>p'. test_addrs_main sys junk [name, ''write'', off, s] p = Some (EXIT_SUCCESS, p') \<and>
      view (kern p') = view (kern p) \<and> Succeeded WRITE (show_0x (strtoul s 0)) \<in> set (stdout p')"
    by (simp add: test_addrs_main_def test_addrs_transfer_def Let_def)
next
  obtain fd k where o: "open_device sys p = Some (fd, p\<lparr>kern := k\<rparr>)" "0 \<le> fd" "opened k fd"
    "view k = view (kern p)" using opens [OF assms(1)] by blast
  have "libc (- EIO) (p\<lparr>kern := k\<rparr>) = (- 1, p\<lparr>kern := k, errno := EIO\<rparr>)" by (simp add: EIO_def)
  moreover obtain p' where "fail_exit sys fd (say (Failed READ) (p\<lparr>kern := k, errno := EIO\<rparr>)) = Some (EXIT_FAILURE, p')"
    "view (kern p') = view k" "stdout p' = stdout p @ [Failed READ, PrintingErrno EIO]"
    using fails [of "say (Failed READ) (p\<lparr>kern := k, errno := EIO\<rparr>)" fd] o(3) by auto
  ultimately show "\<exists>p'. test_addrs_main sys junk [name, ''read'', off] p = Some (EXIT_FAILURE, p') \<and>
      view (kern p') = view (kern p) \<and> stdout p' = stdout p @ [Failed READ, PrintingErrno EIO]"
    using pread_unaligned [OF o(3) assms(2,3)] o
    by (simp add: test_addrs_main_def test_addrs_transfer_def)
qed

lemma ioctl_programs:
  assumes "ready (kern p)"
  shows "\<exists>p'. test_ioctls_main sys [name, ''max_virtines''] p = Some (EXIT_SUCCESS, p') \<and> ready (kern p') \<and>
      view (kern p') = view (kern p) \<and>
      stdout p' = stdout p @ [TotalVirtines (show_lu (of_nat NUM_POSSIBLE_VIRTINES))]"
    "\<exists>p'. test_ioctls_main sys [name, ''change_batch_factor'', n] p = Some (EXIT_SUCCESS, p') \<and> ready (kern p') \<and>
      view (kern p') = (view (kern p))\<lparr>view_batch := lo32 (strtoul n 0)\<rparr> \<and>
      stdout p' = stdout p @ [BatchFactorChanged]"
    "\<exists>p'. test_ioctls_main sys [name, ''ring_doorbell''] p = Some (EXIT_SUCCESS, p') \<and> ready (kern p') \<and>
      view (kern p') = (view (kern p))\<lparr>view_bell := True\<rparr> \<and> stdout p' = stdout p @ [DoorbellRung]"
    "\<exists>p'. test_ioctls_main sys [name, ''set_snapshot'', sz, a] p = Some (EXIT_SUCCESS, p') \<and> ready (kern p') \<and>
      view (kern p') = (view (kern p))\<lparr>view_addr := strtoul a 16, view_size := strtoul sz 0 AND 0xFFFFFFFF\<rparr> \<and>
      stdout p' = stdout p"
proof -
  obtain fd k where o: "open_device sys p = Some (fd, p\<lparr>kern := k\<rparr>)" "0 \<le> fd" "opened k fd"
    "view k = view (kern p)" using opens [OF assms] by blast
  note defs = test_ioctls_main_def ioctl_named_def run_ioctl_def do_ioctl_def
  show "\<exists>p'. test_ioctls_main sys [name, ''max_virtines''] p = Some (EXIT_SUCCESS, p') \<and> ready (kern p') \<and>
      view (kern p') = view (kern p) \<and>
      stdout p' = stdout p @ [TotalVirtines (show_lu (of_nat NUM_POSSIBLE_VIRTINES))]"
    using ioctl_max [OF o(3)] o opened_ready [OF o(3)] by (simp add: defs)
  show "\<exists>p'. test_ioctls_main sys [name, ''change_batch_factor'', n] p = Some (EXIT_SUCCESS, p') \<and> ready (kern p') \<and>
      view (kern p') = (view (kern p))\<lparr>view_batch := lo32 (strtoul n 0)\<rparr> \<and>
      stdout p' = stdout p @ [BatchFactorChanged]"
  proof -
    obtain k' where "sys_ioctl sys fd user_FPGA_CHAR_MODIFY_BATCH_FACTOR (ValueArg (strtoul n 0)) k =
        Some (0, ValueArg (strtoul n 0), k')" "opened k' fd" "view k' = (view k)\<lparr>view_batch := lo32 (strtoul n 0)\<rparr>"
      using ioctl_batch [OF o(3)] by blast
    with o opened_ready show ?thesis by (simp add: defs)
  qed
  show "\<exists>p'. test_ioctls_main sys [name, ''ring_doorbell''] p = Some (EXIT_SUCCESS, p') \<and> ready (kern p') \<and>
      view (kern p') = (view (kern p))\<lparr>view_bell := True\<rparr> \<and> stdout p' = stdout p @ [DoorbellRung]"
  proof -
    obtain k' where "sys_ioctl sys fd user_FPGA_CHAR_RING_DOORBELL NoArg k = Some (0, NoArg, k')"
      "opened k' fd" "view k' = (view k)\<lparr>view_bell := True\<rparr>"
      using ioctl_bell [OF o(3)] by blast
    with o opened_ready show ?thesis by (simp add: defs)
  qed
  show "\<exists>p'. test_ioctls_main sys [name, ''set_snapshot'', sz, a] p = Some (EXIT_SUCCESS, p') \<and> ready (kern p') \<and>
      view (kern p') = (view (kern p))\<lparr>view_addr := strtoul a 16, view_size := strtoul sz 0 AND 0xFFFFFFFF\<rparr> \<and>
      stdout p' = stdout p"
  proof -
    let ?arg = "SnapshotArg (strtoul a 16) (strtoul sz 0)"
    obtain k' where "sys_ioctl sys fd user_FPGA_CHAR_SET_SNAPSHOT ?arg k = Some (8, ?arg, k')" "opened k' fd"
      "view k' = (view k)\<lparr>view_addr := strtoul a 16, view_size := strtoul sz 0 AND 0xFFFFFFFF\<rparr>"
      using ioctl_snapshot [OF o(3)] by blast
    with o opened_ready show ?thesis by (simp add: defs)
  qed
qed

end

subsection \<open>The system calls, dispatched to the driver\<close>

record linux =
  the_driver :: driver_state
  the_device :: qemu_state
  fds :: "int \<rightharpoonup> nat"
  opens :: nat

definition EBADF :: int where "EBADF = 9"
definition ENOENT :: int where "ENOENT = 2"
definition EINVAL :: int where "EINVAL = 22"

text \<open>
  \<open>alloc n\<close> is what the kernel picks for the \<open>n\<close>th open: the descriptor, the number of the
  \<open>struct file\<close>, and what the driver's \<open>kzalloc\<close> gets; \<open>stack\<close> what the kernel stack holds, \<open>buf\<close>
  the address of the program's variable.  Without a third argument \<open>ioctl\<close> passes \<open>junk\<close>.
\<close>

definition vfs_open :: "(nat \<Rightarrow> int \<times> nat \<times> nat option) \<Rightarrow> string \<Rightarrow> linux \<Rightarrow> (int \<times> linux) option" where
  "vfs_open alloc path k =
    (if path \<noteq> device_path then Some (- ENOENT, k)
     else case alloc (opens k) of (fd, fp, kzalloc) \<Rightarrow>
       (let d = the_driver k; d = d\<lparr>files := (files d)(fp \<mapsto> \<lparr>private_data = None\<rparr>)\<rparr> in do {
          (r, d) \<leftarrow> fpga_char_open kzalloc d 0 fp;
          if r < 0 then Some (r, k\<lparr>the_driver := d\<lparr>files := (files d)(fp := None)\<rparr>, opens := opens k + 1\<rparr>)
          else Some (fd, k\<lparr>the_driver := d, fds := (fds k)(fd \<mapsto> fp), opens := opens k + 1\<rparr>)
        }))"

definition vfs_close :: "int \<Rightarrow> linux \<Rightarrow> (int \<times> linux) option" where
  "vfs_close fd k =
    (case fds k fd of
       None \<Rightarrow> Some (- EBADF, k)
     | Some fp \<Rightarrow> do {
         (r, d) \<leftarrow> fpga_char_release (the_driver k) fp;
         Some (0, k\<lparr>the_driver := d\<lparr>files := (files d)(fp := None)\<rparr>, fds := (fds k)(fd := None)\<rparr>)
       })"

definition vfs_pread ::
  "qemu_state readl \<Rightarrow> u64 \<Rightarrow> u64 \<Rightarrow> int \<Rightarrow> u64 \<Rightarrow> nat \<Rightarrow> u64 \<Rightarrow> linux \<Rightarrow> (int \<times> u64 \<times> linux) option" where
  "vfs_pread readl stack buf fd v len off k =
    (case fds k fd of
       None \<Rightarrow> Some (- EBADF, v, k)
     | Some fp \<Rightarrow>
         if sint off < 0 then Some (- EINVAL, v, k)
         else do {
           (r, s, v) \<leftarrow> fpga_char_read readl (\<lambda>u a x. (if a = buf then x else u, 0)) (the_driver k)
                          (the_device k) v stack (Some fp) buf len off;
           Some (r, v, k\<lparr>the_device := s\<rparr>)
         })"

definition vfs_pwrite ::
  "qemu_state iowrite32 \<Rightarrow> u64 \<Rightarrow> int \<Rightarrow> u64 \<Rightarrow> nat \<Rightarrow> u64 \<Rightarrow> linux \<Rightarrow> (int \<times> linux) option" where
  "vfs_pwrite iowrite32 buf fd v len off k =
    (case fds k fd of
       None \<Rightarrow> Some (- EBADF, k)
     | Some fp \<Rightarrow>
         if sint off < 0 then Some (- EINVAL, k)
         else do {
           (r, s) \<leftarrow> fpga_char_write iowrite32 (user_u64 buf v) (the_driver k) (the_device k) (Some fp) buf len off;
           Some (r, k\<lparr>the_device := s\<rparr>)
         })"

fun arg_word :: "u64 \<Rightarrow> u64 \<Rightarrow> ioctl_arg \<Rightarrow> u64" where
  "arg_word junk buf NoArg = junk"
| "arg_word junk buf (ValueArg v) = v"
| "arg_word junk buf _ = buf"

fun arg_memory :: "u64 \<Rightarrow> ioctl_arg \<Rightarrow> copy_from_user" where
  "arg_memory buf (PointerArg v) = user_u64 buf v"
| "arg_memory buf (SnapshotArg a sz) =
     (\<lambda>x. if x = buf \<or> x = buf + 4 then user_u64 buf a x else user_u64 (buf + 8) sz x)"
| "arg_memory buf _ = (\<lambda>x. (0, 4))"

fun arg_store :: "u64 \<Rightarrow> ioctl_arg poke" where
  "arg_store buf (PointerArg u) a v = (if a = buf then Some (PointerArg v) else None)"
| "arg_store buf _ a v = None"

definition vfs_ioctl ::
  "ioc \<Rightarrow> qemu_state readl \<Rightarrow> qemu_state iowrite32 \<Rightarrow> u64 \<Rightarrow> u64 \<Rightarrow> int \<Rightarrow> u32 \<Rightarrow> ioctl_arg \<Rightarrow> linux \<Rightarrow>
   (int \<times> ioctl_arg \<times> linux) option" where
  "vfs_ioctl ioc readl iowrite32 junk buf fd cmd a k =
    (case fds k fd of
       None \<Rightarrow> Some (- EBADF, a, k)
     | Some fp \<Rightarrow> do {
         (r, s, a) \<leftarrow> fpga_char_ioctl ioc readl iowrite32 (arg_memory buf a) (arg_store buf) (the_driver k)
                        (the_device k) a (Some fp) cmd (arg_word junk buf a);
         Some (r, a, k\<lparr>the_device := s\<rparr>)
       })"

definition vfs_syscalls ::
  "(nat \<Rightarrow> int \<times> nat \<times> nat option) \<Rightarrow> u64 \<Rightarrow> u64 \<Rightarrow> ioc \<Rightarrow> qemu_state readl \<Rightarrow> qemu_state iowrite32 \<Rightarrow> linux syscalls" where
  "vfs_syscalls alloc stack buf ioc readl iowrite32 =
    \<lparr>sys_open = vfs_open alloc, sys_close = vfs_close, sys_pread = vfs_pread readl stack buf,
     sys_pwrite = vfs_pwrite iowrite32 buf, sys_ioctl = vfs_ioctl ioc readl iowrite32 stack buf\<rparr>"

definition dispatches :: "linux syscalls \<Rightarrow> linux syscalls \<Rightarrow> bool" where
  "dispatches v sys \<longleftrightarrow>
     (\<forall>k. sys_open sys device_path k = sys_open v device_path k) \<and>
     (\<forall>k fd. fds k fd \<noteq> None \<longrightarrow>
        sys_close sys fd k = sys_close v fd k \<and>
        (\<forall>x off. sys_pread sys fd x 8 off k = sys_pread v fd x 8 off k) \<and>
        (\<forall>x off. sys_pwrite sys fd x 8 off k = sys_pwrite v fd x 8 off k) \<and>
        (\<forall>cmd a. sys_ioctl sys fd cmd a k = sys_ioctl v fd cmd a k))"

subsection \<open>Eight-byte transfers on the attached device\<close>

lemma write8:
  assumes "attached base readl iowrite32" "hw_of d fp = Some hw" "dev_mem hw = base"
    "off mod 4 = 0" "unat off + 8 \<le> GiB" "fst (cfu buf) = lo32 v" "fst (cfu (buf + 4)) = hi32 v"
  shows "fpga_char_write iowrite32 cfu d s fp buf 8 off = do {
    s \<leftarrow> virtine_fpga_mmio_write s off (ucast (lo32 v)) 4;
    s \<leftarrow> virtine_fpga_mmio_write s (off + 4) (ucast (hi32 v)) 4;
    Some (8, s)
  }"
proof -
  have "unat (off + 4) = unat off + 4" using assms(5) by (simp add: unat_word_ariths GiB_def)
  then have bar: "in_bar base (base + off)" "in_bar base (base + (off + 4))"
    using assms(5) unfolding in_bar_offset by (simp_all add: GiB_def)
  have "user_words cfu buf 0 2 = [lo32 v, hi32 v]"
    using assms(6,7) by (simp add: user_words_def word_addrs_def upt_rec)
  then show ?thesis
    using write_words_eq [of 0 8 iowrite32 cfu s buf "base + off"] assms(2-4)
      attachedD(2) [OF assms(1) bar(1)] attachedD(2) [OF assms(1) bar(2)]
    by (simp add: fpga_char_write_def word_addrs_def upt_rec add.assoc split: bind_split option.split)
qed

lemma read8:
  assumes "attached base readl iowrite32" "hw_of d fp = Some hw" "dev_mem hw = base"
    "off mod 4 = 0" "unat off + 8 \<le> GiB"
    "virtine_fpga_mmio_read s off 4 = Some (v, s)" "virtine_fpga_mmio_read s (off + 4) 4 = Some (drop_bit 32 v, s)"
  shows "fpga_char_read readl copy_to_user d s u stack fp buf 8 off =
    (let (u, left) = copy_to_user u buf v in Some (if left \<noteq> 0 then - EFAULT else 8, s, u))"
proof -
  have "unat (off + 4) = unat off + 4" using assms(5) by (simp add: unat_word_ariths GiB_def)
  then have bar: "in_bar base (base + off)" "in_bar base (base + (off + 4))"
    using assms(5) unfolding in_bar_offset by (simp_all add: GiB_def)
  have "mmio_reads readl s (word_addrs (base + off) 0 2) = Some ([lo32 v, hi32 v], s)"
    using attachedD(1) [OF assms(1) bar(1)] attachedD(1) [OF assms(1) bar(2)] assms(6,7)
    by (simp add: word_addrs_def upt_rec add.assoc)
  then show ?thesis
    using read_words_eq [of 0 8 "[lo32 stack, hi32 stack]" readl s "base + off"] assms(2-4)
    by (simp add: fpga_char_read_def fpga_char_read0_def Let_def split: prod.split)
qed

lemma queue_write_frame:
  assumes "virtine_fpga_mmio_write s RQ_TAIL_OFFSET_REG x 4 = Some s1"
    "virtine_fpga_mmio_write s1 (RQ_TAIL_OFFSET_REG + 4) y 4 = Some s2"
  shows "fpga s2 = (fpga s)\<lparr>rq := rq (fpga s2)\<rparr>"
  using assms by (auto simp: dev_simps Let_def split: bind_splits)

subsection \<open>The dispatched system calls keep the contract\<close>

definition linux_card :: "linux \<Rightarrow> card_view" where
  "linux_card k = (let f = fpga (the_device k) in
     \<lparr>waiting = ring_list (rq f), completed = ring_list (cq f), view_addr = snapshot_addr f, view_size = snapshot_size f,
      view_batch = batch_factor f, view_bell = doorbell f\<rparr>)"

text \<open>The driver has a device with the BAR mapped at \<open>base\<close>, and the kernel's allocations succeed.\<close>

definition bound :: "u64 \<Rightarrow> driver_state \<Rightarrow> bool" where
  "bound base d \<longleftrightarrow> (\<exists>h hw. fpga_dev d = Some h \<and> fpgas d h = Some hw \<and> dev_mem hw = base)"

definition linux_ready :: "(nat \<Rightarrow> int \<times> nat \<times> nat option) \<Rightarrow> u64 \<Rightarrow> linux \<Rightarrow> bool" where
  "linux_ready alloc base k \<longleftrightarrow> bound base (the_driver k) \<and> dev_wf (the_device k) \<and>
     (\<forall>n. 0 \<le> fst (alloc n) \<and> snd (snd (alloc n)) \<noteq> None)"

definition linux_opened :: "(nat \<Rightarrow> int \<times> nat \<times> nat option) \<Rightarrow> u64 \<Rightarrow> linux \<Rightarrow> int \<Rightarrow> bool" where
  "linux_opened alloc base k fd \<longleftrightarrow> linux_ready alloc base k \<and>
     (\<exists>fp hw. fds k fd = Some fp \<and> hw_of (the_driver k) (Some fp) = Some hw \<and> dev_mem hw = base)"

lemma linux_opened_device:
  assumes "linux_opened alloc base k fd" "dev_wf s"
  shows "linux_opened alloc base (k\<lparr>the_device := s\<rparr>) fd"
  using assms by (simp add: linux_opened_def linux_ready_def)

lemma vfs_open_ok:
  assumes "linux_ready alloc base k"
  shows "\<exists>fd k'. vfs_open alloc device_path k = Some (fd, k') \<and> 0 \<le> fd \<and> linux_opened alloc base k' fd \<and>
    the_device k' = the_device k"
proof -
  obtain fd fp kz where a: "alloc (opens k) = (fd, fp, kz)" by (cases "alloc (opens k)")
  with assms obtain p where p: "kz = Some p" and fd: "0 \<le> fd"
    unfolding linux_ready_def by (metis fst_conv option.exhaust snd_conv)
  obtain h hw where "fpga_dev (the_driver k) = Some h" "fpgas (the_driver k) h = Some hw" "dev_mem hw = base"
    using assms by (auto simp: linux_ready_def bound_def)
  with assms a p fd show ?thesis
    by (auto simp: vfs_open_def fpga_char_open_def Let_def linux_opened_def linux_ready_def bound_def hw_of_def)
qed

lemma vfs_close_ok:
  assumes "linux_opened alloc base k fd"
  shows "\<exists>k'. vfs_close fd k = Some (0, k') \<and> linux_ready alloc base k' \<and> the_device k' = the_device k"
proof -
  from assms obtain fp hw where o: "fds k fd = Some fp" "hw_of (the_driver k) (Some fp) = Some hw"
    by (auto simp: linux_opened_def)
  from o(2) obtain f where "files (the_driver k) fp = Some f" by (cases "files (the_driver k) fp") (simp_all add: hw_of_def)
  with assms o(1) show ?thesis
    by (auto simp: vfs_close_def fpga_char_release_def linux_opened_def linux_ready_def bound_def
        Let_def split: option.splits)
qed

lemma vfs_pwrite_queue:
  assumes "attached base readl iowrite32" "linux_opened alloc base k fd" "v \<noteq> 0"
  shows "\<exists>k'. vfs_pwrite iowrite32 buf fd v 8 drv_RQ_TAIL_OFFSET_REG k = Some (8, k') \<and>
    linux_opened alloc base k' fd \<and> linux_card k' = enqueue v (linux_card k)"
proof -
  from assms(2) obtain fp hw where o: "fds k fd = Some fp" "hw_of (the_driver k) (Some fp) = Some hw"
    "dev_mem hw = base" and wf: "dev_wf (the_device k)"
    by (auto simp: linux_opened_def linux_ready_def)
  obtain s1 s2 where w:
    "virtine_fpga_mmio_write (the_device k) RQ_TAIL_OFFSET_REG (ucast (lo32 v)) 4 = Some s1"
    "virtine_fpga_mmio_write s1 (RQ_TAIL_OFFSET_REG + 4) (ucast (hi32 v)) 4 = Some s2" "dev_wf s2"
    "rq_list s2 = (if length (rq_list (the_device k)) < NUM_POSSIBLE_VIRTINES
      then rq_list (the_device k) @ [v] else rq_list (the_device k))"
    using rq_write_pair [OF wf assms(3)] by blast
  have reg: "drv_RQ_TAIL_OFFSET_REG = RQ_TAIL_OFFSET_REG" "RQ_TAIL_OFFSET_REG mod 4 = 0"
    "unat RQ_TAIL_OFFSET_REG + 8 \<le> GiB" "\<not> sint RQ_TAIL_OFFSET_REG < 0"
    by (simp_all add: reg_simps GiB_def)
  have "vfs_pwrite iowrite32 buf fd v 8 drv_RQ_TAIL_OFFSET_REG k = Some (8, k\<lparr>the_device := s2\<rparr>)"
    using write8 [OF assms(1) o(2,3) reg(2,3), of "user_u64 buf v" buf v] w(1,2) o(1) reg(1,4)
    by (simp add: vfs_pwrite_def user_u64_def)
  moreover have "linux_card (k\<lparr>the_device := s2\<rparr>) = enqueue v (linux_card k)"
    using w(4) arg_cong [OF queue_write_frame [OF w(1,2)], of snapshot_addr] arg_cong [OF queue_write_frame [OF w(1,2)], of cq]
      arg_cong [OF queue_write_frame [OF w(1,2)], of snapshot_size]
      arg_cong [OF queue_write_frame [OF w(1,2)], of batch_factor]
      arg_cong [OF queue_write_frame [OF w(1,2)], of doorbell]
    by (simp add: linux_card_def enqueue_def Let_def)
  ultimately show ?thesis using linux_opened_device [OF assms(2) w(3)] by blast
qed

lemma vfs_snapshot_addr:
  assumes "attached base readl iowrite32" "linux_opened alloc base k fd"
  shows "\<exists>k'. vfs_pwrite iowrite32 buf fd v 8 drv_SNAPSHOT_ADDR_REG k = Some (8, k') \<and>
      linux_opened alloc base k' fd \<and> linux_card k' = (linux_card k)\<lparr>view_addr := v\<rparr>"
    "vfs_pread readl stack buf fd old 8 drv_SNAPSHOT_ADDR_REG k = Some (8, view_addr (linux_card k), k)"
proof -
  from assms(2) obtain fp hw where o: "fds k fd = Some fp" "hw_of (the_driver k) (Some fp) = Some hw"
    "dev_mem hw = base" and wf: "dev_wf (the_device k)"
    by (auto simp: linux_opened_def linux_ready_def)
  have reg: "drv_SNAPSHOT_ADDR_REG = SNAPSHOT_ADDR_REG" "SNAPSHOT_ADDR_REG mod 4 = 0"
    "unat SNAPSHOT_ADDR_REG + 8 \<le> GiB" "\<not> sint SNAPSHOT_ADDR_REG < 0"
    by (simp_all add: reg_simps GiB_def)
  let ?s = "(the_device k)\<lparr>fpga := (fpga (the_device k))\<lparr>snapshot_addr := v\<rparr>\<rparr>"
  have "vfs_pwrite iowrite32 buf fd v 8 drv_SNAPSHOT_ADDR_REG k = Some (8, k\<lparr>the_device := ?s\<rparr>)"
    using write8 [OF assms(1) o(2,3) reg(2,3), of "user_u64 buf v" buf v] o(1) reg(1,4)
    by (simp add: vfs_pwrite_def user_u64_def dev_simps)
  moreover have "dev_wf ?s" using wf by (simp add: dev_wf_def)
  moreover have "linux_card (k\<lparr>the_device := ?s\<rparr>) = (linux_card k)\<lparr>view_addr := v\<rparr>"
    by (simp add: linux_card_def Let_def)
  ultimately show "\<exists>k'. vfs_pwrite iowrite32 buf fd v 8 drv_SNAPSHOT_ADDR_REG k = Some (8, k') \<and>
      linux_opened alloc base k' fd \<and> linux_card k' = (linux_card k)\<lparr>view_addr := v\<rparr>"
    using linux_opened_device [OF assms(2)] by blast
  have "virtine_fpga_mmio_read (the_device k) SNAPSHOT_ADDR_REG 4 =
      Some (snapshot_addr (fpga (the_device k)), the_device k)"
    "virtine_fpga_mmio_read (the_device k) (SNAPSHOT_ADDR_REG + 4) 4 =
      Some (drop_bit 32 (snapshot_addr (fpga (the_device k))), the_device k)"
    by (simp_all add: dev_simps)
  from read8 [OF assms(1) o(2,3) reg(2,3) this, of "\<lambda>u a x. (if a = buf then x else u, 0)" old stack buf]
    o(1) reg(1,4)
  show "vfs_pread readl stack buf fd old 8 drv_SNAPSHOT_ADDR_REG k = Some (8, view_addr (linux_card k), k)"
    by (simp add: vfs_pread_def linux_card_def Let_def)
qed

lemma vfs_unaligned:
  assumes "linux_opened alloc base k fd" "off mod 4 \<noteq> 0" "0 \<le> sint off"
  shows "vfs_pwrite iowrite32 buf fd v 8 off k = Some (0, k)"
    "vfs_pread readl stack buf fd v 8 off k = Some (- EIO, v, k)"
  using assms
  by (auto simp: linux_opened_def vfs_pwrite_def vfs_pread_def fpga_char_write_def fpga_char_read_def
      fpga_char_read0_def)

lemma vfs_ioctls:
  assumes "attached base readl iowrite32" "linux_ioc ioc" "linux_opened alloc base k fd"
  shows "\<exists>k'. vfs_ioctl ioc readl iowrite32 junk buf fd user_FPGA_CHAR_MODIFY_BATCH_FACTOR (ValueArg v) k =
      Some (0, ValueArg v, k') \<and> linux_opened alloc base k' fd \<and> linux_card k' = (linux_card k)\<lparr>view_batch := lo32 v\<rparr>"
    "vfs_ioctl ioc readl iowrite32 junk buf fd user_FPGA_CHAR_GET_MAX_NUM_VIRTINES (PointerArg v) k =
      Some (0, PointerArg (of_nat NUM_POSSIBLE_VIRTINES), k)"
    "\<exists>k'. vfs_ioctl ioc readl iowrite32 junk buf fd user_FPGA_CHAR_RING_DOORBELL NoArg k =
      Some (0, NoArg, k') \<and> linux_opened alloc base k' fd \<and> linux_card k' = (linux_card k)\<lparr>view_bell := True\<rparr>"
    "\<exists>k'. vfs_ioctl ioc readl iowrite32 junk buf fd user_FPGA_CHAR_SET_SNAPSHOT (SnapshotArg a sz) k =
      Some (8, SnapshotArg a sz, k') \<and> linux_opened alloc base k' fd \<and>
      linux_card k' = (linux_card k)\<lparr>view_addr := a, view_size := sz AND 0xFFFFFFFF\<rparr>"
proof -
  from assms(3) obtain fp hw where o: "fds k fd = Some fp" "hw_of (the_driver k) (Some fp) = Some hw"
    "dev_mem hw = base" and wf: "dev_wf (the_device k)"
    by (auto simp: linux_opened_def linux_ready_def)
  note eff = ioctl_simple_effects [OF assms(1,2) o(2,3), where poke = "arg_store buf"]
  let ?io = "vfs_ioctl ioc readl iowrite32 junk buf fd"
  let ?dev = "\<lambda>f. (the_device k)\<lparr>fpga := f (fpga (the_device k))\<rparr>"
  show "?io user_FPGA_CHAR_GET_MAX_NUM_VIRTINES (PointerArg v) k =
      Some (0, PointerArg (of_nat NUM_POSSIBLE_VIRTINES), k)"
    using o(1) eff(2) by (simp add: vfs_ioctl_def)
  have "?io user_FPGA_CHAR_MODIFY_BATCH_FACTOR (ValueArg v) k =
      Some (0, ValueArg v, k\<lparr>the_device := ?dev (\<lambda>f. f\<lparr>batch_factor := lo32 v\<rparr>)\<rparr>)"
    using o(1) eff(1) by (simp add: vfs_ioctl_def)
  then show "\<exists>k'. ?io user_FPGA_CHAR_MODIFY_BATCH_FACTOR (ValueArg v) k = Some (0, ValueArg v, k') \<and>
      linux_opened alloc base k' fd \<and> linux_card k' = (linux_card k)\<lparr>view_batch := lo32 v\<rparr>"
    using linux_opened_device [OF assms(3), of "?dev (\<lambda>f. f\<lparr>batch_factor := lo32 v\<rparr>)"] wf
    by (simp add: dev_wf_def linux_card_def Let_def)
  have "?io user_FPGA_CHAR_RING_DOORBELL NoArg k =
      Some (0, NoArg, k\<lparr>the_device := call [CondSignal] (?dev (\<lambda>f. f\<lparr>doorbell := True\<rparr>))\<rparr>)"
    using o(1) eff(3) by (simp add: vfs_ioctl_def)
  then show "\<exists>k'. ?io user_FPGA_CHAR_RING_DOORBELL NoArg k = Some (0, NoArg, k') \<and>
      linux_opened alloc base k' fd \<and> linux_card k' = (linux_card k)\<lparr>view_bell := True\<rparr>"
    using linux_opened_device [OF assms(3), of "call [CondSignal] (?dev (\<lambda>f. f\<lparr>doorbell := True\<rparr>))"] wf
    by (simp add: dev_wf_def linux_card_def Let_def)
  have mem: "fst (arg_memory buf (SnapshotArg a sz) buf) = lo32 a"
    "fst (arg_memory buf (SnapshotArg a sz) (buf + 4)) = hi32 a"
    "fst (arg_memory buf (SnapshotArg a sz) (buf + 8)) = lo32 sz"
    "fst (arg_memory buf (SnapshotArg a sz) (buf + 12)) = hi32 sz"
    by (simp_all add: user_u64_def)
  from ioctl_snapshot_effect [OF assms(1,2) o(2,3) mem, of "arg_store buf" "the_device k" "SnapshotArg a sz"]
  obtain s where s: "fpga_char_ioctl ioc readl iowrite32 (arg_memory buf (SnapshotArg a sz)) (arg_store buf)
      (the_driver k) (the_device k) (SnapshotArg a sz) (Some fp) user_FPGA_CHAR_SET_SNAPSHOT buf =
        Some (8, s, SnapshotArg a sz)"
    "fpga s = (fpga (the_device k))\<lparr>snapshot_size := sz AND 0xFFFFFFFF, snapshot_addr := a\<rparr>"
    by blast
  have "?io user_FPGA_CHAR_SET_SNAPSHOT (SnapshotArg a sz) k = Some (8, SnapshotArg a sz, k\<lparr>the_device := s\<rparr>)"
    using o(1) s(1) by (simp add: vfs_ioctl_def)
  moreover have "dev_wf s" using wf s(2) by (simp add: dev_wf_def)
  moreover have "linux_card (k\<lparr>the_device := s\<rparr>) = (linux_card k)\<lparr>view_addr := a, view_size := sz AND 0xFFFFFFFF\<rparr>"
    using s(2) by (simp add: linux_card_def Let_def)
  ultimately show "\<exists>k'. ?io user_FPGA_CHAR_SET_SNAPSHOT (SnapshotArg a sz) k = Some (8, SnapshotArg a sz, k') \<and>
      linux_opened alloc base k' fd \<and>
      linux_card k' = (linux_card k)\<lparr>view_addr := a, view_size := sz AND 0xFFFFFFFF\<rparr>"
    using linux_opened_device [OF assms(3)] by blast
qed

lemma dispatched_device_file:
  assumes "attached base readl iowrite32" "linux_ioc ioc"
    "dispatches (vfs_syscalls alloc stack buf ioc readl iowrite32) sys"
  shows "device_file sys (linux_ready alloc base) (linux_opened alloc base) linux_card"
proof -
  have d: "sys_open sys device_path k = vfs_open alloc device_path k" for k
    using assms(3) by (simp add: dispatches_def vfs_syscalls_def)
  have e: "sys_close sys fd k = vfs_close fd k"
    "sys_pread sys fd x 8 off k = vfs_pread readl stack buf fd x 8 off k"
    "sys_pwrite sys fd x 8 off k = vfs_pwrite iowrite32 buf fd x 8 off k"
    "sys_ioctl sys fd cmd a k = vfs_ioctl ioc readl iowrite32 stack buf fd cmd a k"
    if "linux_opened alloc base k fd" for k fd x off cmd a
    using assms(3) that by (auto simp: dispatches_def vfs_syscalls_def linux_opened_def)
  show ?thesis
  proof
    fix k assume "linux_ready alloc base k"
    from vfs_open_ok [OF this] show "\<exists>fd k'. sys_open sys device_path k = Some (fd, k') \<and> 0 \<le> fd \<and>
        linux_opened alloc base k' fd \<and> linux_card k' = linux_card k"
      by (auto simp: d linux_card_def)
  next
    fix k fd assume k: "linux_opened alloc base k fd"
    note e = e [OF k]
    show "linux_ready alloc base k" using k by (simp add: linux_opened_def)
    show "\<exists>k'. sys_close sys fd k = Some (0, k') \<and> linux_ready alloc base k' \<and> linux_card k' = linux_card k"
      using vfs_close_ok [OF k] by (auto simp: e linux_card_def)
    note io = vfs_ioctls [OF assms(1,2) k] vfs_snapshot_addr [OF assms(1) k]
    show "\<exists>k'. sys_ioctl sys fd user_FPGA_CHAR_RING_DOORBELL NoArg k = Some (0, NoArg, k') \<and>
        linux_opened alloc base k' fd \<and> linux_card k' = (linux_card k)\<lparr>view_bell := True\<rparr>"
      unfolding e by (rule io(3))
    fix v :: u64
    show "\<exists>k'. sys_pwrite sys fd v 8 drv_SNAPSHOT_ADDR_REG k = Some (8, k') \<and>
        linux_opened alloc base k' fd \<and> linux_card k' = (linux_card k)\<lparr>view_addr := v\<rparr>"
      "sys_pread sys fd v 8 drv_SNAPSHOT_ADDR_REG k = Some (8, view_addr (linux_card k), k)"
      unfolding e by (rule io(5), rule io(6))
    show "\<exists>k'. sys_ioctl sys fd user_FPGA_CHAR_MODIFY_BATCH_FACTOR (ValueArg v) k = Some (0, ValueArg v, k') \<and>
        linux_opened alloc base k' fd \<and> linux_card k' = (linux_card k)\<lparr>view_batch := lo32 v\<rparr>"
      "sys_ioctl sys fd user_FPGA_CHAR_GET_MAX_NUM_VIRTINES (PointerArg v) k =
        Some (0, PointerArg (of_nat NUM_POSSIBLE_VIRTINES), k)"
      unfolding e by (rule io(1), rule io(2))
    show "\<exists>k'. sys_ioctl sys fd user_FPGA_CHAR_SET_SNAPSHOT (SnapshotArg a v) k = Some (8, SnapshotArg a v, k') \<and>
        linux_opened alloc base k' fd \<and>
        linux_card k' = (linux_card k)\<lparr>view_addr := a, view_size := v AND 0xFFFFFFFF\<rparr>" for a
      unfolding e by (rule io(4))
    show "v \<noteq> 0 \<Longrightarrow> \<exists>k'. sys_pwrite sys fd v 8 drv_RQ_TAIL_OFFSET_REG k = Some (8, k') \<and>
        linux_opened alloc base k' fd \<and> linux_card k' = enqueue v (linux_card k)"
      unfolding e by (rule vfs_pwrite_queue [OF assms(1) k])
    show "sys_pwrite sys fd v 8 off k = Some (0, k)" "sys_pread sys fd v 8 off k = Some (- EIO, v, k)"
      if "off mod 4 \<noteq> 0" "0 \<le> sint off" for off
      using vfs_unaligned [OF k that] by (simp_all add: e)
  qed
qed

lemma linux_encoding_ioc: "linux_ioc linux_encoding"
  by (simp add: linux_ioc_def)

lemma dispatches_refl: "dispatches sys sys"
  by (simp add: dispatches_def)

interpretation vfs_file: device_file "vfs_syscalls alloc stack buf linux_encoding (bus_readl base) (bus_iowrite32 base)"
    "linux_ready alloc base" "linux_opened alloc base" linux_card for alloc stack buf base
  by (rule dispatched_device_file [OF attached_bus linux_encoding_ioc dispatches_refl])

subsection \<open>A running system, for the witnesses\<close>

definition example_linux :: linux where
  "example_linux = \<lparr>the_driver = example_driver, the_device = example_device, fds = Map.empty, opens = 0\<rparr>"

abbreviation example_alloc :: "nat \<Rightarrow> int \<times> nat \<times> nat option" where
  "example_alloc \<equiv> \<lambda>n. (3, 1, Some (n + 5))"

abbreviation example_sys :: "linux syscalls" where
  "example_sys \<equiv> vfs_syscalls example_alloc 0 0x100 linux_encoding example_bus example_bus_w"

lemma example_linux_ready:
  "linux_ready example_alloc 0xF0000000 (kern (fresh example_linux))"
  "waiting (linux_card example_linux) = []"
  using example_device_wf
  by (simp_all add: linux_ready_def bound_def example_linux_def example_driver_def linux_card_def Let_def)

subsection \<open>Properties of the test programs on the device\<close>

text \<open>
  C11. A value written with \<open>test-addrs\<close> comes back: on the attached device \<open>test-addrs write\<close> to the snapshot
  address register succeeds, a later \<open>test-addrs read\<close> of it succeeds and prints that value, and
  each of the three forms it prints, signed, unsigned and hexadecimal, denotes the same value
  when given to \<open>test-addrs write\<close> again.
\<close>

theorem test_addrs_round_trip:
  assumes "attached base readl iowrite32" "linux_ioc ioc"
    "dispatches (vfs_syscalls alloc stack buf ioc readl iowrite32) sys"
    "linux_ready alloc base (kern p)" "strtoul off 0 = drv_SNAPSHOT_ADDR_REG"
  shows "\<exists>p1. test_addrs_main sys junk [name, ''write'', off, s] p = Some (EXIT_SUCCESS, p1) \<and>
    (\<exists>p2 d u x. test_addrs_main sys junk' [name, ''read'', off] (fresh (kern p1)) = Some (EXIT_SUCCESS, p2) \<and>
      stdout p2 = [Succeeded READ x, ValueIs d u x] \<and>
      (\<forall>t \<in> {d, u, x}. strtoul t 0 = strtoul s 0))"
proof -
  note df = dispatched_device_file [OF assms(1-3)]
  obtain p1 where p1: "test_addrs_main sys junk [name, ''write'', off, s] p = Some (EXIT_SUCCESS, p1)"
    "linux_ready alloc base (kern p1)" "linux_card (kern p1) = (linux_card (kern p))\<lparr>view_addr := strtoul s 0\<rparr>"
    using device_file.write_addr [OF df assms(4,5)] by blast
  let ?v = "strtoul s 0"
  have "linux_ready alloc base (kern (fresh (kern p1)))" "?v = view_addr (linux_card (kern (fresh (kern p1))))"
    using p1(2,3) by simp_all
  from device_file.read_addr [OF df this(1) assms(5) this(2), of junk' name] obtain p2 where
    "test_addrs_main sys junk' [name, ''read'', off] (fresh (kern p1)) = Some (EXIT_SUCCESS, p2)"
    "stdout p2 = [Succeeded READ (show_0x ?v), ValueIs (show_ld ?v) (show_lu ?v) (show_0x ?v)]"
    by auto
  with p1(1) show ?thesis
    by (intro exI [of _ p1] conjI exI [of _ p2] exI [of _ "show_ld ?v"] exI [of _ "show_lu ?v"]
        exI [of _ "show_0x ?v"]) (simp_all add: printed_reads_back)
qed

theorem test_addrs_round_trip_witness:
  "\<exists>p1 p2 d u x. test_addrs_main example_sys 0 [''test-addrs'', ''write'', ''0x688'', ''-2''] (fresh example_linux) =
      Some (EXIT_SUCCESS, p1) \<and>
    test_addrs_main example_sys 0 [''test-addrs'', ''read'', ''0x688''] (fresh (kern p1)) = Some (EXIT_SUCCESS, p2) \<and>
    stdout p2 = [Succeeded READ x, ValueIs d u x] \<and> strtoul x 0 = - 2"
proof -
  have off: "strtoul ''0x688'' 0 = drv_SNAPSHOT_ADDR_REG" and v: "strtoul ''-2'' 0 = - 2"
    by (simp_all add: strtoul_simps reg_simps)
  from test_addrs_round_trip [OF attached_bus linux_encoding_ioc dispatches_refl example_linux_ready(1) off,
      where junk = 0 and junk' = 0 and name = "''test-addrs''" and s = "''-2''" and stack = 0 and buf = "0x100"]
  show ?thesis unfolding v by blast
qed

text \<open>
  What \<open>test-give-virtine\<close> does on the attached device: it queues the address of its own heap variable,
  a pointer of its process and not a guest physical address, reports success and exits with 0,
  also when the ready queue was full and the address was dropped.
\<close>

lemma give_virtine_queues_pointer:
  assumes "attached base readl iowrite32" "linux_ioc ioc"
    "dispatches (vfs_syscalls alloc stack buf ioc readl iowrite32) sys"
    "linux_ready alloc base (kern p)" "malloced \<noteq> 0"
  shows "\<exists>p'. test_give_virtine_main sys malloced [name] p = Some (EXIT_SUCCESS, p') \<and>
    last (stdout p') = WriteVirtineSucceeded (show_0x malloced) \<and>
    waiting (linux_card (kern p')) = (if length (waiting (linux_card (kern p))) < NUM_POSSIBLE_VIRTINES
      then waiting (linux_card (kern p)) @ [malloced] else waiting (linux_card (kern p)))"
  using device_file.give_virtine [OF dispatched_device_file [OF assms(1-3)] assms(4,5), of name]
  by (auto simp: enqueue_def)

text \<open>
  Misaligned offsets: the driver answers a write at an offset that is no multiple of four with 0
  bytes written, which \<open>test-addrs\<close> takes for success; a read there is reported as the failure it is.
\<close>

lemma misaligned_write_reported_as_success:
  assumes "attached base readl iowrite32" "linux_ioc ioc"
    "dispatches (vfs_syscalls alloc stack buf ioc readl iowrite32) sys"
    "linux_ready alloc base (kern p)" "strtoul off 0 mod 4 \<noteq> 0" "0 \<le> sint (strtoul off 0)"
  shows "(\<exists>p'. test_addrs_main sys junk [name, ''write'', off, s] p = Some (EXIT_SUCCESS, p') \<and>
      linux_card (kern p') = linux_card (kern p) \<and> Succeeded WRITE (show_0x (strtoul s 0)) \<in> set (stdout p')) \<and>
    (\<exists>p'. test_addrs_main sys junk [name, ''read'', off] p = Some (EXIT_FAILURE, p') \<and>
      linux_card (kern p') = linux_card (kern p) \<and> stdout p' = stdout p @ [Failed READ, PrintingErrno EIO])"
  by (intro conjI; rule device_file.unaligned_access [OF dispatched_device_file [OF assms(1-3)] assms(4-6)])

text \<open>
  C12. What each command of \<open>test-ioctls\<close> does to the attached device: \<open>max_virtines\<close> prints 100,
  \<open>change_batch_factor\<close> sets the batch factor to the low half of its argument, \<open>ring_doorbell\<close> sets the
  doorbell, and \<open>set_snapshot\<close> takes its second argument, always hexadecimal, as the address and the
  low half of its first as the size; each exits with 0 and changes nothing else.
\<close>

theorem test_ioctls_commands:
  assumes "attached base readl iowrite32" "linux_ioc ioc"
    "dispatches (vfs_syscalls alloc stack buf ioc readl iowrite32) sys" "linux_ready alloc base k"
  shows "(\<exists>p. test_ioctls_main sys [name, ''max_virtines''] (fresh k) = Some (EXIT_SUCCESS, p) \<and>
      linux_card (kern p) = linux_card k \<and> stdout p = [TotalVirtines ''100'']) \<and>
    (\<exists>p. test_ioctls_main sys [name, ''change_batch_factor'', n] (fresh k) = Some (EXIT_SUCCESS, p) \<and>
      linux_card (kern p) = (linux_card k)\<lparr>view_batch := lo32 (strtoul n 0)\<rparr>) \<and>
    (\<exists>p. test_ioctls_main sys [name, ''ring_doorbell''] (fresh k) = Some (EXIT_SUCCESS, p) \<and>
      linux_card (kern p) = (linux_card k)\<lparr>view_bell := True\<rparr>) \<and>
    (\<exists>p. test_ioctls_main sys [name, ''set_snapshot'', sz, a] (fresh k) = Some (EXIT_SUCCESS, p) \<and>
      linux_card (kern p) =
        (linux_card k)\<lparr>view_addr := strtoul a 16, view_size := strtoul sz 0 AND 0xFFFFFFFF\<rparr>)"
proof -
  have "show_lu (of_nat NUM_POSSIBLE_VIRTINES) = ''100''"
    by (simp add: show_lu_def show_base.simps NUM_POSSIBLE_VIRTINES_def digit_char_eq)
  moreover have "linux_ready alloc base (kern (fresh k))" using assms(4) by simp
  note io = device_file.ioctl_programs [OF dispatched_device_file [OF assms(1-3)] this, unfolded fresh_simps]
  ultimately show ?thesis
    using io(1) [where name = name] io(2) [where name = name and n = n] io(3) [where name = name]
      io(4) [where name = name and sz = sz and a = a] by (intro conjI; elim exE) auto
qed

theorem test_ioctls_commands_witness:
  "\<exists>p. test_ioctls_main example_sys [''test-ioctls'', ''set_snapshot'', ''8'', ''7000''] (fresh example_linux) =
      Some (EXIT_SUCCESS, p) \<and>
    linux_card (kern p) = (linux_card example_linux)\<lparr>view_addr := 0x7000, view_size := 8\<rparr>"
proof -
  have "strtoul ''7000'' 16 = 0x7000" "strtoul ''8'' 0 AND 0xFFFFFFFF = 8"
    by (simp_all add: strtoul_simps)
  moreover have "linux_ready example_alloc 0xF0000000 example_linux" using example_linux_ready(1) by simp
  note test_ioctls_commands [OF attached_bus linux_encoding_ioc dispatches_refl this, where n = "''1''"
      and name = "''test-ioctls''" and sz = "''8''" and a = "''7000''" and stack = 0 and buf = "0x100"]
  ultimately show ?thesis by auto
qed

end
