(* ===== verification/Spec2Isabelle.thy ===== *)
theory Spec2Isabelle
  imports Liveness GuestMemory OpenFiles Modules XilinxExample DeviceFile
begin

text \<open>
  A verification library for \<open>linux-pcie-dma\<close>: an emulated PCIe device (\<open>src/qemu-fpga-char/virtine_fpga.c\<close>,
  part of QEMU) whose co-processor restores dirty virtual machines, "virtines", from a snapshot by
  DMA, and the Linux driver that feeds it (\<open>src/fpga-char/\<close>).

  \<^bold>\<open>How the parts interact.\<close>  A user program writes guest physical addresses to the device file; the
  driver turns each 8-byte write into two 32-bit register writes; the device's write handler
  joins the halves and inserts the address into the ready queue (RQ).  A write to the doorbell
  register wakes the co-processor thread, which pops the RQ until it reads 0, copies the
  snapshot over each virtine with \<open>pci_dma_write\<close>, inserts the address into the completed queue
  (CQ) and raises an MSI interrupt whenever \<open>batch_factor\<close> virtines have been restored since the
  last one.  The driver's interrupt handler reads the CQ's head register until it reads 0.

  \<^bold>\<open>Theories.\<close>
  \<^item> \<open>Prelude\<close>: machine types, 32-bit halves of 64-bit words, rotation of lists.
  \<^item> \<open>RingQueue\<close>: \<open>struct virtine_ring_queue\<close> with pointers as 64-bit addresses.  \<open>ring_ok\<close> (pointers on
    slots) is all memory safety needs; \<open>ring_wf\<close> adds the full/empty discipline, under which
    \<open>ring_list\<close> is the queue's contents and \<open>insert_tail\<close>, \<open>pop_head\<close> refine the bounded list.
    The locales \<open>safe_ring\<close> and \<open>bounded_fifo\<close> state the two contracts and are interpreted on
    the code's model (\<open>ring_safe\<close>, \<open>ring_fifo\<close>).
  \<^item> \<open>Registers\<close>: the two \<open>#define\<close> chains, device and driver (prefix \<open>drv_\<close>).
  \<^item> \<open>VirtineDevice\<close>: \<open>VirtineFpgaDevice\<close>, the MMIO handlers with their two function statics
    (\<open>split_return\<close>, \<open>split_write\<close>), realize, uninit, class data; calls into QEMU are logged.
  \<^item> \<open>Cleanup\<close>: the co-processor's pass run in one piece (\<open>cleanup_turn\<close>, \<open>clean_pass\<close>, \<open>clean_loop\<close>),
    its termination, and the abstract card (\<open>spec_pass\<close>) it refines.
  \<^item> \<open>Interleaving\<close>: the same code as a small-step relation \<open>step\<close> of two threads over the processing
    lock, the iothread lock and the condition variable; invariants by rule induction.
  \<^item> \<open>Delivery\<close>: histories of the runs of \<open>step\<close>, and that every address queued is restored and handed back
    once and in order under every interleaving; \<open>Liveness\<close>: that the co-processor comes to rest when the
    guest is quiet, and that everything queued can always be delivered; \<open>GuestMemory\<close>: what a pass does to the bytes of the
    guest's memory.
  \<^item> \<open>Bus\<close>: the contracts \<open>mmio_bus\<close> and \<open>virtine_bus\<close> between driver and device, and \<open>attached\<close>.
  \<^item> \<open>CharDev\<close>: \<open>chardev.c\<close>: open, release, read, write, ioctl; \<open>PciDriver\<close>: \<open>fpga_char_main.c\<close>: probe,
    remove, the interrupt handler, and the registration functions of \<open>chardev.c\<close>.
  \<^item> \<open>OpenFiles\<close>: the pointers between files, private data and device structure as a typed store, under
    any sequence of opens and releases.
  \<^item> \<open>CLibrary\<close>, \<open>TestPrograms\<close>: \<open>strtoul\<close>, the \<open>printf\<close> conversions, and \<open>main\<close> of the three programs of
    \<open>src/fpga-char-test/\<close> over a record of system calls; \<open>DeviceFile\<close>: the contract \<open>device_file\<close> those
    programs rely on, and its instance, the file operations of \<open>CharDev\<close> on an attached device.
  \<^item> \<open>EchoDriver\<close>, \<open>SampleChar\<close>: the two earlier drivers of the repository; \<open>ExampleDriver\<close> and
    \<open>XilinxExample\<close>: the examples in \<open>src/example/\<close>; \<open>Modules\<close>: ID tables, load and unload functions of
    all modules, \<open>hello.c\<close>, and the registration of the device type.
  \<^item> this theory: what spans device and driver.

  \<^bold>\<open>Conventions.\<close>  \<open>None\<close> is undefined behaviour (an access outside an object, a null or dangling
  pointer) or a loop that does not return; so \<open>f x = Some y\<close> says that the code returns.  No fuel
  is used: \<open>clean_loop\<close> is a \<open>partial_function\<close> whose returning is a theorem (each round leaves one
  non-zero slot fewer in the RQ), \<open>read_words\<close>, \<open>write_words\<close> and \<open>fetch_loop\<close> terminate by measures.
  Code outside the repository is a parameter: bus accessors, copies from and to user memory,
  the \<open>_IOC\<close> macro, and what the kernel's services return (\<open>env\<close>).  The hypotheses on them are
  \<open>attached\<close> (each 32-bit access inside the 1 GiB BAR reaches the device's handler with its offset,
  which is what the device asks of QEMU), \<open>linux_ioc\<close> (the documented encoding of ioctl
  numbers), \<open>fills\<close> and \<open>refuses\<close> (documented behaviour of the copies), \<open>dispatches\<close> (the system calls
  on the device file reach the driver's operations), \<open>dma_copies\<close> (\<open>pci_dma_write\<close> copies what it is
  asked to) and \<open>matches_table\<close> (the PCI core searches an ID table up to its end); each has a concrete instance
  in the witnesses.  Sequential consistency is assumed of QEMU's atomic accesses.

  \<^bold>\<open>What is proved.\<close>  The queues are bounded FIFOs in both directions of the round trip; no guest
  access and no interleaving leads the device into undefined behaviour; only restored
  addresses are reported, and each exactly once and in order as long as the guest keeps at most 100
  addresses out, and what was queued can be delivered from every state in which no handler runs and
  no shutdown has begun; left alone the co-processor makes at most 7208 steps before it sleeps; a restored virtine equals the snapshot byte for byte; the only ways for the threads to
  get stuck are the shutdown and one deadlock, which is reachable; a doorbell can be missed, a shutdown cannot; interrupts come
  every \<open>batch_factor\<close> virtines; the driver's transfers are the register accesses they should be;
  the whole round trip of a batch of virtines, and of a session of the test programs; every open
  file leads to the device.  Where the code does not do what it means to,
  the theorem states what it does: lost completions, a zero that stops the pass, the stuck
  processing flag, the truncated snapshot size, the overruns and leaks of the driver.

  \<^bold>\<open>Not modelled.\<close>  Printing by the device and the drivers (the messages of the test programs are);
  8-byte MMIO accesses by other guests; weak memory; the operation table of the character
  device and the permissions callback of its class, which only hand functions to the kernel;
  \<open>xilinx_example-user.c\<close>, a C++ fragment around one ioctl of a handler that is not in the
  repository; build files.

  \<^bold>\<open>Plan.\<close>  Next: the interrupt handler as a third thread that fetches while the co-processor runs, under
  fair scheduling; removal of the device with files open and interrupts
  pending.
\<close>

section \<open>Properties that span device and driver\<close>

text \<open>
  C35. The two hand-kept register maps agree: driver and device give every register the same offset and
  size, the registers follow one another from offset 0 without gap or overlap, all inside the
  1 GiB BAR; and the driver's ID table names the vendor and device the device class declares.
\<close>

theorem register_maps_agree:
  "driver_layout = device_layout \<and> packed_from 0 device_layout \<and>
   list_all (\<lambda>(r, n). unat r + n \<le> 1 * GiB) device_layout \<and>
   drv_NUM_POSSIBLE_VIRTINES = NUM_POSSIBLE_VIRTINES \<and>
   pci_class.vendor_id virtine_fpga_class_init = VENDOR_ID \<and>
   pci_class.device_id virtine_fpga_class_init = DEVICE_ID"
proof -
  have n: "drv_NUM_POSSIBLE_VIRTINES = NUM_POSSIBLE_VIRTINES"
    by (simp add: drv_NUM_POSSIBLE_VIRTINES_def NUM_POSSIBLE_VIRTINES_def)
  then have "driver_layout = device_layout"
    by (simp add: driver_layout_def device_layout_def reg_simps)
  moreover have "packed_from 0 device_layout"
    by (simp add: device_layout_def reg_simps NUM_POSSIBLE_VIRTINES_def)
  moreover have "list_all (\<lambda>(r, n). unat r + n \<le> 1 * GiB) device_layout"
    by (simp add: device_layout_def reg_simps NUM_POSSIBLE_VIRTINES_def GiB_def)
  ultimately show ?thesis
    using n by (simp add: virtine_fpga_class_init_def VENDOR_ID_def DEVICE_ID_def)
qed

subsection \<open>The round trip of a virtine\<close>

text \<open>A user program queues addresses one by one, each from the same buffer at \<open>buf\<close>.\<close>

fun queue_virtines ::
  "qemu_state iowrite32 \<Rightarrow> driver_state \<Rightarrow> nat option \<Rightarrow> u64 \<Rightarrow> qemu_state \<Rightarrow> u64 list \<Rightarrow> qemu_state option" where
  "queue_virtines iowrite32 d fp buf s [] = Some s"
| "queue_virtines iowrite32 d fp buf s (v # vs) =
     Option.bind (fpga_char_write iowrite32 (user_u64 buf v) d s fp buf 8 drv_RQ_TAIL_OFFSET_REG)
       (\<lambda>(n, s). queue_virtines iowrite32 d fp buf s vs)"

lemma queue_virtines_ok:
  assumes "attached base readl iowrite32" "hw_of d fp = Some hw" "dev_mem hw = base" "dev_wf s"
    "0 \<notin> set vs" "length (rq_list s) + length vs \<le> NUM_POSSIBLE_VIRTINES"
  shows "\<exists>s'. queue_virtines iowrite32 d fp buf s vs = Some s' \<and> dev_wf s' \<and>
    rq_list s' = rq_list s @ vs \<and> cq_list s' = cq_list s"
  using assms(4-)
proof (induction vs arbitrary: s)
  case (Cons v vs)
  have "v \<noteq> 0" "fst (user_u64 buf v buf) = lo32 v" "fst (user_u64 buf v (buf + 4)) = hi32 v"
    "length (rq_list s) < NUM_POSSIBLE_VIRTINES"
    using Cons.prems by (auto simp: user_u64_def)
  with virtine_bus.char_write_enqueues [OF attached_virtine_bus [OF assms(1)] assms(2,3) Cons.prems(1),
      of v "user_u64 buf v" buf]
  obtain s1 where s1:
    "fpga_char_write iowrite32 (user_u64 buf v) d s fp buf 8 drv_RQ_TAIL_OFFSET_REG = Some (8, s1)"
    "dev_wf s1" "rq_list s1 = rq_list s @ [v]" "cq_list s1 = cq_list s"
    by auto
  with Cons.IH [of s1] Cons.prems show ?case by auto
qed simp

lemma ring_doorbell_frame:
  fixes s :: qemu_state
  defines "s' \<equiv> call [CondSignal] (s\<lparr>fpga := (fpga s)\<lparr>doorbell := True\<rparr>\<rparr>)"
  shows "dev_wf s' = dev_wf s" "rq_list s' = rq_list s" "cq_list s' = cq_list s"
  by (simp_all add: s'_def dev_wf_def)

text \<open>
  C8. The whole round trip: a program that queues up to 100 virtines through the device file of an idle
  device and rings the doorbell by ioctl gets them cleaned by the next pass of the co-processor,
  each restored from the snapshot once and in order, and the interrupt handler then fetches
  exactly those addresses, in the order they were queued; the device is idle again.
\<close>

theorem virtines_make_the_round_trip:
  assumes "attached base readl iowrite32" "linux_ioc ioc"
    "hw_of d fp = Some hw" "dev_mem hw = base" "fpgas d cookie = Some dev" "hw_of d (filep dev) = Some hw"
    "dev_wf s" "rq_list s = []" "cq_list s = []" "0 \<notin> set vs" "length vs \<le> NUM_POSSIBLE_VIRTINES"
  shows "\<exists>s1 s2 s3 s4 tr. queue_virtines iowrite32 d fp buf s vs = Some s1 \<and>
    fpga_char_ioctl ioc readl iowrite32 cfu poke d s1 u fp user_FPGA_CHAR_RING_DOORBELL 0 = Some (0, s2, u) \<and>
    clean_pass s2 = Some s3 \<and> calls s3 = calls s2 @ tr \<and> map fst (dma_targets tr) = vs \<and>
    fetch_clean_virtines readl d s3 cookie = Some (IRQ_HANDLED, vs, s4) \<and>
    dev_wf s4 \<and> rq_list s4 = [] \<and> cq_list s4 = []"
proof -
  from queue_virtines_ok [OF assms(1,3,4,7,10), of buf] assms(8,9,11) obtain s1 where
    s1: "queue_virtines iowrite32 d fp buf s vs = Some s1" "dev_wf s1" "rq_list s1 = vs" "cq_list s1 = []"
    by auto
  let ?s2 = "call [CondSignal] (s1\<lparr>fpga := (fpga s1)\<lparr>doorbell := True\<rparr>\<rparr>)"
  note s2 = ring_doorbell_frame [of s1]
  have wf2: "dev_wf ?s2" using s1(2) s2(1) by simp
  obtain s3 tr where s3: "clean_pass ?s2 = Some s3" "rq_list s3 = []" "calls s3 = calls ?s2 @ tr"
    "cq_list s3 = vs" "map fst (dma_targets tr) = vs"
    using clean_pass_moves [OF wf2] s1(3,4) s2(2,3) assms(11) by (force simp: comp_def)
  have "dev_wf s3" using clean_pass_spec [OF wf2] s3(1) by auto
  from fetch_all [OF assms(1,5,6,4) this] s3(2,4) obtain s4 where
    s4: "fetch_clean_virtines readl d s3 cookie = Some (IRQ_HANDLED, vs, s4)" "dev_wf s4"
    "rq_list s4 = []" "cq_list s4 = []" by auto
  show ?thesis
    by (intro exI conjI, rule s1(1), rule ioctl_simple_effects(3) [OF assms(1-4)], rule s3(1),
      rule s3(3), rule s3(5), rule s4(1), rule s4(2), rule s4(3), rule s4(4))
qed

theorem virtines_make_the_round_trip_witness:
  "\<exists>s1 s2 s3 s4. queue_virtines example_bus_w example_driver (Some 0) 0x100 example_device [0xA000, 0xB000] = Some s1 \<and>
    clean_pass s2 = Some s3 \<and>
    fetch_clean_virtines example_bus example_driver s3 0 = Some (IRQ_HANDLED, [0xA000, 0xB000], s4)"
proof -
  have lin: "linux_ioc linux_encoding" and mem: "dev_mem example_hw = 0xF0000000"
    and opened: "fpgas example_driver 0 = Some example_hw"
      "hw_of example_driver (filep example_hw) = Some example_hw"
    using example_driver_hw by (simp_all add: example_driver_def linux_ioc_def)
  have vs: "0 \<notin> set [0xA000, 0xB000 :: u64]" "length [0xA000, 0xB000 :: u64] \<le> NUM_POSSIBLE_VIRTINES"
    by (simp_all add: NUM_POSSIBLE_VIRTINES_def)
  from virtines_make_the_round_trip [OF attached_bus lin example_driver_hw mem opened
      example_device_wf vs, where u = "0 :: nat" and cfu = "\<lambda>a. (0, 0)" and poke = "\<lambda>u a v. Some u"
      and buf = "0x100"]
  show ?thesis by (elim exE conjE) (intro exI conjI)
qed

subsection \<open>A session at the shell\<close>



end
